theory Spec2Isabelle
  imports Main "HOL-Library.Word"
begin

section \<open>The pipeline executor (src/parallel/pipeline\_executor.cpp)\<close>

subsection \<open>Types the executor works on\<close>

datatype OperatorResultType = NEED_MORE_INPUT | HAVE_MORE_OUTPUT | FINISHED

datatype SinkResultType = SINK_NEED_MORE_INPUT | SINK_FINISHED

text \<open>
  What can leave a method other than its return value: the two exceptions the file throws,
  a failed \<^verbatim>\<open>D_ASSERT\<close> (in a build that checks assertions, where a failed
  assertion aborts the query), and a dereference the C++ leaves undefined.
\<close>

datatype error = InterruptException | InternalException | AssertionFailure | UndefinedBehaviour

text \<open>
  Modelled from the spec: the declaration of \<^verbatim>\<open>LogicalType\<close> is not part of the
  sources at hand. A logical type is a tag and, for the nested variants, named children.
\<close>

datatype LogicalTypeId =
  BOOLEAN | INTEGER | BIGINT | DOUBLE | DECIMAL | VARCHAR | TIMESTAMP | STRUCT | LIST | MAP

datatype LogicalType = LogicalType (type_id: LogicalTypeId) (child_types: "(string \<times> LogicalType) list")

text \<open>
  Modelled from the spec: \<^verbatim>\<open>DataChunk\<close> is declared outside the sources at hand. A chunk
  is a row-aligned batch: its column types and its rows. \<^verbatim>\<open>Reset\<close> sets the length to zero,
  \<^verbatim>\<open>Initialize\<close> allocates empty columns of the given types, \<^verbatim>\<open>Append\<close> adds the rows of
  another chunk, \<^verbatim>\<open>Move\<close> steals the storage of the other chunk (which is left destroyed)
  and \<^verbatim>\<open>Reference\<close> makes the chunk show the contents of the other one.
\<close>

record 'r DataChunk =
  chunk_types :: "LogicalType list"
  chunk_rows :: "'r list"

definition size_chunk :: "'r DataChunk \<Rightarrow> nat" where
  "size_chunk c = length (chunk_rows c)"

definition Reset :: "'r DataChunk \<Rightarrow> 'r DataChunk" where
  "Reset c = c\<lparr>chunk_rows := []\<rparr>"

definition Initialize :: "LogicalType list \<Rightarrow> 'r DataChunk" where
  "Initialize ts = \<lparr>chunk_types = ts, chunk_rows = []\<rparr>"

definition Append :: "'r DataChunk \<Rightarrow> 'r DataChunk \<Rightarrow> 'r DataChunk" where
  "Append c other = c\<lparr>chunk_rows := chunk_rows c @ chunk_rows other\<rparr>"

definition destroyed_chunk :: "'r DataChunk" where
  "destroyed_chunk = \<lparr>chunk_types = [], chunk_rows = []\<rparr>"

text \<open>
  The collaborators of the executor, by the interface the executor uses. An operator's
  \<^verbatim>\<open>Execute\<close> reads the rows of its input chunk and its own state, and yields a result
  code, the rows it wrote into the (freshly reset) output chunk and its next state. The
  global and the local state of source and sink are passed and returned explicitly.
\<close>

record ('r, 'st) PhysicalOperator =
  GetTypes :: "LogicalType list"
  RequiresCache :: bool
  GetOperatorState :: 'st
  OperatorExecute :: "'r list \<Rightarrow> 'st \<Rightarrow> OperatorResultType \<times> 'r list \<times> 'st"

record ('r, 'st) PhysicalSource =
  SourceTypes :: "LogicalType list"
  GetLocalSourceState :: "'st \<Rightarrow> 'st"
  GetData :: "'st \<Rightarrow> 'st \<Rightarrow> 'r list \<times> 'st \<times> 'st"

record ('r, 'st) PhysicalSink =
  SinkOrderMatters :: bool
  GetLocalSinkState :: 'st
  Sink :: "'st \<Rightarrow> 'st \<Rightarrow> 'r list \<Rightarrow> SinkResultType \<times> 'st \<times> 'st"
  Combine :: "'st \<Rightarrow> 'st \<Rightarrow> 'st"

record ('r, 'st) Pipeline =
  source :: "('r, 'st) PhysicalSource"
  operators :: "('r, 'st) PhysicalOperator list"
  sink :: "('r, 'st) PhysicalSink option"

text \<open>
  The two compile-time constants the file uses and the macro \<^verbatim>\<open>D_ASSERT\<close> are defined in
  headers that are not part of the sources at hand, so they are parameters of the model.
  \<^verbatim>\<open>D_ASSERT(c)\<close> checks \<^verbatim>\<open>c\<close> in a debug build and is empty in a release build, where
  the statements after it run whatever \<^verbatim>\<open>c\<close> is.
\<close>

record BuildConstants =
  STANDARD_VECTOR_SIZE :: nat
  CACHE_THRESHOLD :: nat
  DEBUG :: bool

text \<open>
  Subtraction on \<^verbatim>\<open>idx_t\<close>, an unsigned 64-bit integer: it wraps around when the
  subtrahend is the larger number.
\<close>

definition idx_sub :: "nat \<Rightarrow> nat \<Rightarrow> nat" where
  "idx_sub a b = (if b \<le> a then a - b else a + 2 ^ 64 - b)"

text \<open>
  The calls the executor makes on operators and sink, in the order it makes them: the
  operator's position in the pipeline, the rows of the chunk it was given, its result code
  and the rows it produced.
\<close>

datatype 'r call =
  OperatorCall nat "'r list" OperatorResultType "'r list"
  | SinkCall "'r list" SinkResultType
  | CombineCall

text \<open>
  The executor's members, followed by the state it reaches through references: the shared
  source and sink state of the pipeline, the client's interrupt flag, the chunk owned by the
  caller of \<^verbatim>\<open>ExecutePush\<close>, and the calls made so far.
\<close>

record ('r, 'st) PipelineExecutor =
  local_source_state :: 'st
  local_sink_state :: "'st option"
  intermediate_chunks :: "'r DataChunk list"
  intermediate_states :: "'st list"
  cached_chunks :: "'r DataChunk option list"
  in_process_operators :: "nat list"
  final_chunk :: "'r DataChunk"
  finished_processing :: bool
  finalized :: bool
  source_state :: 'st
  sink_state :: 'st
  interrupted :: bool
  caller_chunk :: "'r DataChunk"
  calls :: "'r call list"

text \<open>
  The methods take chunks by reference, and the same chunk is reached under several names
  (\<^verbatim>\<open>input\<close> is \<^verbatim>\<open>*intermediate_chunks[0]\<close> in \<^verbatim>\<open>Execute()\<close> and \<^verbatim>\<open>*cached_chunks[i]\<close>
  in \<^verbatim>\<open>PushFinalize\<close>), so a reference is a value of its own and chunks are read and written
  through it. A reference to a slot that does not exist reads as the destroyed chunk and
  writes nothing; the executor dereferences only slots it has checked.
\<close>

datatype chunk_ref = Intermediate nat | Final | Cached nat | Caller

fun get_chunk :: "('r, 'st) PipelineExecutor \<Rightarrow> chunk_ref \<Rightarrow> 'r DataChunk" where
  "get_chunk s (Intermediate i) =
     (if i < length (intermediate_chunks s) then intermediate_chunks s ! i else destroyed_chunk)"
| "get_chunk s Final = final_chunk s"
| "get_chunk s (Cached i) =
     (if i < length (cached_chunks s)
      then (case cached_chunks s ! i of Some c \<Rightarrow> c | None \<Rightarrow> destroyed_chunk)
      else destroyed_chunk)"
| "get_chunk s Caller = caller_chunk s"

fun set_chunk :: "chunk_ref \<Rightarrow> 'r DataChunk \<Rightarrow> ('r, 'st) PipelineExecutor \<Rightarrow> ('r, 'st) PipelineExecutor" where
  "set_chunk (Intermediate i) c s = s\<lparr>intermediate_chunks := (intermediate_chunks s)[i := c]\<rparr>"
| "set_chunk Final c s = s\<lparr>final_chunk := c\<rparr>"
| "set_chunk (Cached i) c s =
     (if i < length (cached_chunks s) \<and> cached_chunks s ! i \<noteq> None
      then s\<lparr>cached_chunks := (cached_chunks s)[i := Some c]\<rparr> else s)"
| "set_chunk Caller c s = s\<lparr>caller_chunk := c\<rparr>"

subsection \<open>CanCacheType\<close>

fun CanCacheType :: "LogicalType \<Rightarrow> bool"
  and CanCacheEntries :: "(string \<times> LogicalType) list \<Rightarrow> bool" where
  "CanCacheType (LogicalType tid entries) =
     (if tid = LIST \<or> tid = MAP then False
      else if tid = STRUCT then CanCacheEntries entries
      else True)"
| "CanCacheEntries [] = True"
| "CanCacheEntries (entry # entries) =
     (if \<not> CanCacheType (snd entry) then False else CanCacheEntries entries)"

subsection \<open>The constructor\<close>

text \<open>The inner loop over the operator's output types, with its early exit.\<close>

fun can_cache_types :: "LogicalType list \<Rightarrow> bool" where
  "can_cache_types [] = True"
| "can_cache_types (t # ts) = (if \<not> CanCacheType t then False else can_cache_types ts)"

function constructor_loop ::
  "('r, 'st) Pipeline \<Rightarrow> nat \<Rightarrow> ('r, 'st) PipelineExecutor \<Rightarrow> ('r, 'st) PipelineExecutor" where
  "constructor_loop P i s =
     (if i < length (operators P) then
        let prev_types = (if i = 0 then SourceTypes (source P) else GetTypes (operators P ! (i - 1)));
            current_operator = operators P ! i;
            s1 = s\<lparr>intermediate_chunks := intermediate_chunks s @ [Initialize prev_types],
                   intermediate_states := intermediate_states s @ [GetOperatorState current_operator]\<rparr>
        in if (case sink P of None \<Rightarrow> False | Some snk \<Rightarrow> \<not> SinkOrderMatters snk)
              \<and> RequiresCache current_operator
           then if \<not> can_cache_types (GetTypes current_operator)
                then constructor_loop P (i + 1) s1
                else constructor_loop P (i + 1)
                       (s1\<lparr>cached_chunks :=
                             (cached_chunks s1)[i := Some (Initialize (GetTypes current_operator))]\<rparr>)
           else constructor_loop P (i + 1) s1
      else s)"
  by pat_completeness auto
termination
  by (relation "measure (\<lambda>(P, i, s). length (operators P) - i)") auto

declare constructor_loop.simps [simp del]

text \<open>
  The constructor receives the client's interrupt flag, the shared states of the pipeline
  and the chunk of the future caller of \<^verbatim>\<open>ExecutePush\<close> as the environment it will work in.
\<close>

definition InitializeChunk :: "('r, 'st) Pipeline \<Rightarrow> 'r DataChunk" where
  "InitializeChunk P =
     Initialize (if operators P = [] then SourceTypes (source P) else GetTypes (last (operators P)))"

definition new_PipelineExecutor ::
  "('r, 'st) Pipeline \<Rightarrow> 'st \<Rightarrow> 'st \<Rightarrow> bool \<Rightarrow> 'r DataChunk \<Rightarrow> ('r, 'st) PipelineExecutor" where
  "new_PipelineExecutor P src_state snk_state intr caller =
     (let s0 = \<lparr>local_source_state = GetLocalSourceState (source P) src_state,
                local_sink_state = (case sink P of None \<Rightarrow> None | Some snk \<Rightarrow> Some (GetLocalSinkState snk)),
                intermediate_chunks = [],
                intermediate_states = [],
                cached_chunks = replicate (length (operators P)) None,
                in_process_operators = [],
                final_chunk = destroyed_chunk,
                finished_processing = False,
                finalized = False,
                source_state = src_state,
                sink_state = snk_state,
                interrupted = intr,
                caller_chunk = caller,
                calls = []\<rparr>;
          s1 = constructor_loop P 0 s0
      in s1\<lparr>final_chunk := InitializeChunk P\<rparr>)"

subsection \<open>GoToSource and CacheChunk\<close>

definition GoToSource ::
  "BuildConstants \<Rightarrow> nat \<Rightarrow> ('r, 'st) PipelineExecutor \<Rightarrow>
   (error + nat) \<times> ('r, 'st) PipelineExecutor" where
  "GoToSource K initial_idx s =
     (case in_process_operators s of
        [] \<Rightarrow> (Inr initial_idx, s)
      | top_idx # rest \<Rightarrow>
          (if DEBUG K \<and> \<not> top_idx \<ge> initial_idx then Inl AssertionFailure else Inr top_idx,
           s\<lparr>in_process_operators := rest\<rparr>))"

definition CacheChunk ::
  "BuildConstants \<Rightarrow> ('r, 'st) Pipeline \<Rightarrow> chunk_ref \<Rightarrow> chunk_ref \<Rightarrow> nat \<Rightarrow>
   ('r, 'st) PipelineExecutor \<Rightarrow> ('r, 'st) PipelineExecutor" where
  "CacheChunk K P prev_chunk current_chunk operator_idx s =
     (if STANDARD_VECTOR_SIZE K \<ge> 128 then
        (if operator_idx < length (cached_chunks s) then
           (case cached_chunks s ! operator_idx of
              None \<Rightarrow> s
            | Some cache \<Rightarrow>
                if size_chunk (get_chunk s prev_chunk) \<ge> CACHE_THRESHOLD K
                   \<and> size_chunk (get_chunk s current_chunk) < CACHE_THRESHOLD K
                then
                  let chunk_cache = Append cache (get_chunk s current_chunk) in
                  if size_chunk chunk_cache \<ge> idx_sub (STANDARD_VECTOR_SIZE K) (CACHE_THRESHOLD K)
                  then
                    let s1 = set_chunk current_chunk chunk_cache s in
                    s1\<lparr>cached_chunks := (cached_chunks s1)
                         [operator_idx := Some (Initialize (GetTypes (operators P ! operator_idx)))]\<rparr>
                  else
                    let s1 = s\<lparr>cached_chunks := (cached_chunks s)[operator_idx := Some chunk_cache]\<rparr> in
                    set_chunk current_chunk (Reset (get_chunk s1 current_chunk)) s1
                else s)
         else s)
      else s)"

subsection \<open>The Execute state machine\<close>

text \<open>
  How one round of the \<^verbatim>\<open>while (true)\<close> loop of \<^verbatim>\<open>Execute\<close> ends: with \<^verbatim>\<open>continue\<close>
  (or by reaching the end of the body) at a new \<^verbatim>\<open>current_idx\<close>, with \<^verbatim>\<open>break\<close>, or
  with a \<^verbatim>\<open>return\<close> or \<^verbatim>\<open>throw\<close> from inside the loop.
\<close>

datatype 's loop_exit = Break 's | Return "error + OperatorResultType" 's

datatype 's loop_step = Continue nat 's | Exit "'s loop_exit"

text \<open>
  Where the round at \<^verbatim>\<open>current_idx\<close> puts its chunk, and which chunk the operator reads.
\<close>

definition current_ref :: "('r, 'st) PipelineExecutor \<Rightarrow> chunk_ref \<Rightarrow> nat \<Rightarrow> chunk_ref" where
  "current_ref s result current_idx =
     (let current_intermediate = current_idx in
      if current_intermediate \<ge> length (intermediate_chunks s) then result
      else Intermediate current_intermediate)"

definition prev_ref :: "chunk_ref \<Rightarrow> nat \<Rightarrow> nat \<Rightarrow> chunk_ref" where
  "prev_ref input initial_idx current_idx =
     (let current_intermediate = current_idx in
      if current_intermediate = initial_idx + 1 then input
      else Intermediate (current_intermediate - 1))"

text \<open>
  The call of the operator in front of position \<^verbatim>\<open>current_idx\<close>, and the push of the
  in-process marker when it answers \<^verbatim>\<open>HAVE_MORE_OUTPUT\<close>.
\<close>

definition call_operator ::
  "('r, 'st) Pipeline \<Rightarrow> chunk_ref \<Rightarrow> chunk_ref \<Rightarrow> nat \<Rightarrow> ('r, 'st) PipelineExecutor \<Rightarrow>
   OperatorResultType \<times> ('r, 'st) PipelineExecutor" where
  "call_operator P prev_chunk current_chunk current_idx s =
     (let operator_idx = current_idx - 1;
          current_operator = operators P ! operator_idx;
          prev_rows = chunk_rows (get_chunk s prev_chunk);
          (op_result, output_rows, op_state) =
             OperatorExecute current_operator prev_rows (intermediate_states s ! operator_idx);
          s2 = (set_chunk current_chunk ((get_chunk s current_chunk)\<lparr>chunk_rows := output_rows\<rparr>) s)
                 \<lparr>intermediate_states := (intermediate_states s)[operator_idx := op_state],
                  calls := calls s @ [OperatorCall operator_idx prev_rows op_result output_rows]\<rparr>
      in (op_result,
          if op_result = HAVE_MORE_OUTPUT
          then s2\<lparr>in_process_operators := current_idx # in_process_operators s2\<rparr>
          else s2))"

definition Execute_step ::
  "BuildConstants \<Rightarrow> ('r, 'st) Pipeline \<Rightarrow> chunk_ref \<Rightarrow> chunk_ref \<Rightarrow> nat \<Rightarrow> nat \<Rightarrow>
   ('r, 'st) PipelineExecutor \<Rightarrow> ('r, 'st) PipelineExecutor loop_step" where
  "Execute_step K P input result initial_idx current_idx s =
     (if interrupted s then Exit (Return (Inl InterruptException) s)
      else
        let current_chunk = current_ref s result current_idx;
            s1 = set_chunk current_chunk (Reset (get_chunk s current_chunk)) s
        in
        if current_idx = initial_idx then Exit (Return (Inr NEED_MORE_INPUT) s1)
        else if current_idx = 0 \<or> current_idx - 1 \<ge> length (operators P)
                \<or> current_idx - 1 \<ge> length (intermediate_states s1)
        then Exit (Return (Inl UndefinedBehaviour) s1)
        else if interrupted s1 then Exit (Return (Inl InterruptException) s1)
        else
          let prev_chunk = prev_ref input initial_idx current_idx;
              (op_result, s3) = call_operator P prev_chunk current_chunk current_idx s1
          in
          if op_result = FINISHED then
            (if DEBUG K \<and> \<not> size_chunk (get_chunk s3 current_chunk) = 0
             then Exit (Return (Inl AssertionFailure) s3)
             else Exit (Return (Inr FINISHED) s3))
          else
            let s4 = CacheChunk K P prev_chunk current_chunk (current_idx - 1) s3 in
            if size_chunk (get_chunk s4 current_chunk) = 0 then
              (if current_idx = initial_idx then Exit (Break s4)
               else (case GoToSource K initial_idx s4 of
                       (Inl e, s5) \<Rightarrow> Exit (Return (Inl e) s5)
                     | (Inr idx, s5) \<Rightarrow> Continue idx s5))
            else
              (if current_idx + 1 > length (operators P) then Exit (Break s4)
               else Continue (current_idx + 1) s4))"

partial_function (option) Execute_loop ::
  "BuildConstants \<Rightarrow> ('r, 'st) Pipeline \<Rightarrow> chunk_ref \<Rightarrow> chunk_ref \<Rightarrow> nat \<Rightarrow> nat \<Rightarrow>
   ('r, 'st) PipelineExecutor \<Rightarrow> ('r, 'st) PipelineExecutor loop_exit option" where
  "Execute_loop K P input result initial_idx current_idx s =
     (case Execute_step K P input result initial_idx current_idx s of
        Continue idx s' \<Rightarrow> Execute_loop K P input result initial_idx idx s'
      | Exit e \<Rightarrow> Some e)"

declare Execute_loop.simps [code]

text \<open>\<^verbatim>\<open>Execute\<close> up to the end of its loop.\<close>

definition Execute_body ::
  "BuildConstants \<Rightarrow> ('r, 'st) Pipeline \<Rightarrow> chunk_ref \<Rightarrow> chunk_ref \<Rightarrow> nat \<Rightarrow>
   ('r, 'st) PipelineExecutor \<Rightarrow> ('r, 'st) PipelineExecutor loop_exit option" where
  "Execute_body K P input result initial_idx s =
     (if size_chunk (get_chunk s input) = 0 then Some (Return (Inr NEED_MORE_INPUT) s)
      else if DEBUG K \<and> operators P = [] then Some (Return (Inl AssertionFailure) s)
      else
        (case GoToSource K initial_idx s of
           (Inl e, s1) \<Rightarrow> Some (Return (Inl e) s1)
         | (Inr idx, s1) \<Rightarrow>
             let current_idx = (if idx = initial_idx then idx + 1 else idx) in
             if current_idx > length (operators P)
             then Some (Return (Inr NEED_MORE_INPUT) (set_chunk result (get_chunk s1 input) s1))
             else Execute_loop K P input result initial_idx current_idx s1))"

text \<open>\<^verbatim>\<open>Execute\<close>: the value thrown or returned, and the executor afterwards.\<close>

definition Execute ::
  "BuildConstants \<Rightarrow> ('r, 'st) Pipeline \<Rightarrow> chunk_ref \<Rightarrow> chunk_ref \<Rightarrow> nat \<Rightarrow>
   ('r, 'st) PipelineExecutor \<Rightarrow> ((error + OperatorResultType) \<times> ('r, 'st) PipelineExecutor) option" where
  "Execute K P input result initial_idx s =
     (case Execute_body K P input result initial_idx s of
        None \<Rightarrow> None
      | Some (Return r s') \<Rightarrow> Some (r, s')
      | Some (Break s') \<Rightarrow>
          Some (Inr (if in_process_operators s' = [] then NEED_MORE_INPUT else HAVE_MORE_OUTPUT), s'))"

subsection \<open>Push mode\<close>

text \<open>The call of the sink in \<^verbatim>\<open>ExecutePushInternal\<close>, made when the chunk has rows.\<close>

definition SinkChunk ::
  "BuildConstants \<Rightarrow> ('r, 'st) Pipeline \<Rightarrow> chunk_ref \<Rightarrow> ('r, 'st) PipelineExecutor \<Rightarrow>
   (error + SinkResultType) \<times> ('r, 'st) PipelineExecutor" where
  "SinkChunk K P sink_chunk s =
     (if size_chunk (get_chunk s sink_chunk) > 0 then
        (if interrupted s then (Inl InterruptException, s)
         else
           (case sink P of
              None \<Rightarrow> (Inl (if DEBUG K then AssertionFailure else UndefinedBehaviour), s)
            | Some snk \<Rightarrow>
                (case local_sink_state s of
                   None \<Rightarrow> (Inl UndefinedBehaviour, s)
                 | Some lstate \<Rightarrow>
                     let rows = chunk_rows (get_chunk s sink_chunk);
                         (sink_result, gstate', lstate') = Sink snk (sink_state s) lstate rows
                     in (Inr sink_result,
                         s\<lparr>sink_state := gstate', local_sink_state := Some lstate',
                           calls := calls s @ [SinkCall rows sink_result]\<rparr>))))
      else (Inr SINK_NEED_MORE_INPUT, s))"

text \<open>
  One round of the \<^verbatim>\<open>while (true)\<close> loop of \<^verbatim>\<open>ExecutePushInternal\<close>: it either leaves
  the method or goes round again. The round does not end when \<^verbatim>\<open>Execute\<close> does not return.
\<close>

datatype 's push_step = PushAgain 's | PushReturn "error + OperatorResultType" 's

definition ExecutePushInternal_step ::
  "BuildConstants \<Rightarrow> ('r, 'st) Pipeline \<Rightarrow> chunk_ref \<Rightarrow> nat \<Rightarrow> ('r, 'st) PipelineExecutor \<Rightarrow>
   ('r, 'st) PipelineExecutor push_step option" where
  "ExecutePushInternal_step K P input initial_idx s =
     (case (if operators P \<noteq> []
            then Execute K P input Final initial_idx (s\<lparr>final_chunk := Reset (final_chunk s)\<rparr>)
            else Some (Inr NEED_MORE_INPUT, s)) of
        None \<Rightarrow> None
      | Some (Inl e, s1) \<Rightarrow> Some (PushReturn (Inl e) s1)
      | Some (Inr result, s1) \<Rightarrow>
          if operators P \<noteq> [] \<and> result = FINISHED then Some (PushReturn (Inr FINISHED) s1)
          else
            (case SinkChunk K P (if operators P = [] then input else Final) s1 of
               (Inl e, s2) \<Rightarrow> Some (PushReturn (Inl e) s2)
             | (Inr sink_result, s2) \<Rightarrow>
                 if sink_result = SINK_FINISHED then Some (PushReturn (Inr FINISHED) s2)
                 else if result = NEED_MORE_INPUT then Some (PushReturn (Inr NEED_MORE_INPUT) s2)
                 else Some (PushAgain s2)))"

partial_function (option) ExecutePushInternal_loop ::
  "BuildConstants \<Rightarrow> ('r, 'st) Pipeline \<Rightarrow> chunk_ref \<Rightarrow> nat \<Rightarrow> ('r, 'st) PipelineExecutor \<Rightarrow>
   ((error + OperatorResultType) \<times> ('r, 'st) PipelineExecutor) option" where
  "ExecutePushInternal_loop K P input initial_idx s =
     (case ExecutePushInternal_step K P input initial_idx s of
        None \<Rightarrow> None
      | Some (PushAgain s') \<Rightarrow> ExecutePushInternal_loop K P input initial_idx s'
      | Some (PushReturn r s') \<Rightarrow> Some (r, s'))"

declare ExecutePushInternal_loop.simps [code]

definition ExecutePushInternal ::
  "BuildConstants \<Rightarrow> ('r, 'st) Pipeline \<Rightarrow> chunk_ref \<Rightarrow> nat \<Rightarrow> ('r, 'st) PipelineExecutor \<Rightarrow>
   ((error + OperatorResultType) \<times> ('r, 'st) PipelineExecutor) option" where
  "ExecutePushInternal K P input initial_idx s =
     (if DEBUG K \<and> sink P = None then Some (Inl AssertionFailure, s)
      else if size_chunk (get_chunk s input) = 0 then Some (Inr NEED_MORE_INPUT, s)
      else ExecutePushInternal_loop K P input initial_idx s)"

text \<open>
  The public \<^verbatim>\<open>ExecutePush\<close>: the caller's chunk becomes the input, and the default
  argument \<^verbatim>\<open>initial_idx = 0\<close> is passed.
\<close>

definition ExecutePush ::
  "BuildConstants \<Rightarrow> ('r, 'st) Pipeline \<Rightarrow> 'r DataChunk \<Rightarrow> ('r, 'st) PipelineExecutor \<Rightarrow>
   ((error + OperatorResultType) \<times> ('r, 'st) PipelineExecutor) option" where
  "ExecutePush K P input s = ExecutePushInternal K P Caller 0 (s\<lparr>caller_chunk := input\<rparr>)"

text \<open>
  One round of the loop of \<^verbatim>\<open>PushFinalize\<close> over the cache slots: a slot that exists and
  holds rows is pushed through the operators behind it and then released. The value
  \<^verbatim>\<open>ExecutePushInternal\<close> returns is dropped.
\<close>

definition flush_slot ::
  "BuildConstants \<Rightarrow> ('r, 'st) Pipeline \<Rightarrow> nat \<Rightarrow> ('r, 'st) PipelineExecutor \<Rightarrow>
   ((error + unit) \<times> ('r, 'st) PipelineExecutor) option" where
  "flush_slot K P i s =
     (if cached_chunks s ! i \<noteq> None \<and> size_chunk (get_chunk s (Cached i)) > 0 then
        (case ExecutePushInternal K P (Cached i) (i + 1) s of
           None \<Rightarrow> None
         | Some (Inl e, s1) \<Rightarrow> Some (Inl e, s1)
         | Some (Inr r, s1) \<Rightarrow> Some (Inr (), s1\<lparr>cached_chunks := (cached_chunks s1)[i := None]\<rparr>))
      else Some (Inr (), s))"

partial_function (option) flush_caches ::
  "BuildConstants \<Rightarrow> ('r, 'st) Pipeline \<Rightarrow> nat \<Rightarrow> ('r, 'st) PipelineExecutor \<Rightarrow>
   ((error + unit) \<times> ('r, 'st) PipelineExecutor) option" where
  "flush_caches K P i s =
     (if i < length (cached_chunks s) then
        (case flush_slot K P i s of
           None \<Rightarrow> None
         | Some (Inl e, s1) \<Rightarrow> Some (Inl e, s1)
         | Some (Inr u, s1) \<Rightarrow> flush_caches K P (i + 1) s1)
      else Some (Inr (), s))"

declare flush_caches.simps [code]

text \<open>
  The end of \<^verbatim>\<open>PushFinalize\<close>: the thread-local sink state is combined into the shared
  one and released. \<^verbatim>\<open>pipeline.executor.Flush(thread)\<close> hands the thread's profiler to the
  query executor and touches nothing of the state modelled here.
\<close>

definition combine_sink ::
  "BuildConstants \<Rightarrow> ('r, 'st) Pipeline \<Rightarrow> ('r, 'st) PipelineExecutor \<Rightarrow>
   (error + unit) \<times> ('r, 'st) PipelineExecutor" where
  "combine_sink K P s =
     (case local_sink_state s of
        None \<Rightarrow> (Inl (if DEBUG K then AssertionFailure else UndefinedBehaviour), s)
      | Some lstate \<Rightarrow>
          (case sink P of
             None \<Rightarrow> (Inl UndefinedBehaviour, s)
           | Some snk \<Rightarrow>
               (Inr (), s\<lparr>sink_state := Combine snk (sink_state s) lstate,
                          local_sink_state := None,
                          calls := calls s @ [CombineCall]\<rparr>)))"

definition PushFinalize ::
  "BuildConstants \<Rightarrow> ('r, 'st) Pipeline \<Rightarrow> ('r, 'st) PipelineExecutor \<Rightarrow>
   ((error + unit) \<times> ('r, 'st) PipelineExecutor) option" where
  "PushFinalize K P s =
     (if finalized s then Some (Inl InternalException, s)
      else
        let s1 = s\<lparr>finalized := True\<rparr> in
        if \<not> finished_processing s1 then
          (if DEBUG K \<and> in_process_operators s1 \<noteq> [] then Some (Inl AssertionFailure, s1)
           else
             (case flush_caches K P 0 s1 of
                None \<Rightarrow> None
              | Some (Inl e, s2) \<Rightarrow> Some (Inl e, s2)
              | Some (Inr u, s2) \<Rightarrow> Some (combine_sink K P s2)))
        else Some (combine_sink K P s1))"

definition FetchFromSource ::
  "('r, 'st) Pipeline \<Rightarrow> chunk_ref \<Rightarrow> ('r, 'st) PipelineExecutor \<Rightarrow>
   (error + unit) \<times> ('r, 'st) PipelineExecutor" where
  "FetchFromSource P result s =
     (if interrupted s then (Inl InterruptException, s)
      else
        let (rows, gstate', lstate') = GetData (source P) (source_state s) (local_source_state s)
        in (Inr (), (set_chunk result ((get_chunk s result)\<lparr>chunk_rows := rows\<rparr>) s)
                      \<lparr>source_state := gstate', local_source_state := lstate'\<rparr>))"

text \<open>The loop of the parameterless \<^verbatim>\<open>Execute()\<close>, which drives a whole pipeline.\<close>

partial_function (option) Execute_source_loop ::
  "BuildConstants \<Rightarrow> ('r, 'st) Pipeline \<Rightarrow> chunk_ref \<Rightarrow> ('r, 'st) PipelineExecutor \<Rightarrow>
   ((error + unit) \<times> ('r, 'st) PipelineExecutor) option" where
  "Execute_source_loop K P source_chunk s =
     (case FetchFromSource P source_chunk
             (set_chunk source_chunk (Reset (get_chunk s source_chunk)) s) of
        (Inl e, s1) \<Rightarrow> Some (Inl e, s1)
      | (Inr u, s1) \<Rightarrow>
          if size_chunk (get_chunk s1 source_chunk) = 0 then Some (Inr (), s1)
          else
            (case ExecutePushInternal K P source_chunk 0 s1 of
               None \<Rightarrow> None
             | Some (Inl e, s2) \<Rightarrow> Some (Inl e, s2)
             | Some (Inr result, s2) \<Rightarrow>
                 if result = FINISHED then Some (Inr (), s2\<lparr>finished_processing := True\<rparr>)
                 else Execute_source_loop K P source_chunk s2))"

declare Execute_source_loop.simps [code]

definition Execute_pipeline ::
  "BuildConstants \<Rightarrow> ('r, 'st) Pipeline \<Rightarrow> ('r, 'st) PipelineExecutor \<Rightarrow>
   ((error + unit) \<times> ('r, 'st) PipelineExecutor) option" where
  "Execute_pipeline K P s =
     (if DEBUG K \<and> sink P = None then Some (Inl AssertionFailure, s)
      else
        (case Execute_source_loop K P (if operators P = [] then Final else Intermediate 0) s of
           None \<Rightarrow> None
         | Some (Inl e, s1) \<Rightarrow> Some (Inl e, s1)
         | Some (Inr u, s1) \<Rightarrow> PushFinalize K P s1))"

section \<open>The checkpoint manager (src/storage/checkpoint\_manager.cpp)\<close>

subsection \<open>Streams of bytes\<close>

type_synonym byte = "8 word"

type_synonym block_id_t = "64 word"

text \<open>
  Modelled from the spec: \<^verbatim>\<open>MetaBlockWriter\<close> and \<^verbatim>\<open>MetaBlockReader\<close> are not part of the
  sources at hand. \<^verbatim>\<open>Write<T>\<close> copies the raw bytes of a value into the stream and
  \<^verbatim>\<open>Read<T>\<close> takes them out again; the byte order is fixed, here to little-endian. A
  read beyond the end of the stream fails.
\<close>

fun le_bytes :: "nat \<Rightarrow> nat \<Rightarrow> byte list" where
  "le_bytes 0 v = []"
| "le_bytes (Suc n) v = of_nat (v mod 256) # le_bytes n (v div 256)"

fun le_nat :: "byte list \<Rightarrow> nat" where
  "le_nat [] = 0"
| "le_nat (b # bs) = unat b + 256 * le_nat bs"

definition write_u32 :: "32 word \<Rightarrow> byte list" where
  "write_u32 v = le_bytes 4 (unat v)"

definition write_u64 :: "64 word \<Rightarrow> byte list" where
  "write_u64 v = le_bytes 8 (unat v)"

datatype load_error = SerializationException | NotImplementedException

definition read_u32 :: "byte list \<Rightarrow> load_error + (32 word \<times> byte list)" where
  "read_u32 bs =
     (if length bs < 4 then Inl SerializationException
      else Inr (of_nat (le_nat (take 4 bs)), drop 4 bs))"

definition read_u64 :: "byte list \<Rightarrow> load_error + (64 word \<times> byte list)" where
  "read_u64 bs =
     (if length bs < 8 then Inl SerializationException
      else Inr (of_nat (le_nat (take 8 bs)), drop 8 bs))"

text \<open>
  A writer knows the block it is filling and its offset in that block (the tip of its
  stream); the model keeps the bytes written through it so far beside them.
\<close>

record MetaBlockWriter =
  block_id :: block_id_t
  offset :: "64 word"
  written :: "byte list"

subsection \<open>The catalog and the collaborators\<close>

text \<open>
  Modelled from the spec: the catalog entries are declared outside the sources at hand.
  An entry has its catalog type and the information that \<^verbatim>\<open>Serialize\<close> writes; a table
  also has its data. A schema has its own information and the three scopes that
  \<^verbatim>\<open>WriteSchema\<close> scans, each in the order of the scan.
\<close>

datatype CatalogType =
  SCHEMA_ENTRY | TABLE_ENTRY | VIEW_ENTRY | INDEX_ENTRY | SEQUENCE_ENTRY
  | SCALAR_FUNCTION_ENTRY | MACRO_ENTRY

record ('i, 'd) CatalogEntry =
  entry_type :: CatalogType
  entry_info :: 'i
  entry_data :: 'd

record ('i, 'd) SchemaCatalogEntry =
  schema_info :: 'i
  table_scope :: "('i, 'd) CatalogEntry list"
  sequence_scope :: "('i, 'd) CatalogEntry list"
  function_scope :: "('i, 'd) CatalogEntry list"

text \<open>
  What the checkpoint manager calls and does not define: the serializers of the entries
  (by catalog type), the binder, the writer and the reader of table data, and the way the
  tip of a stream moves when bytes are written through \<^verbatim>\<open>MetaBlockWriter\<close>.
\<close>

record ('i, 'd) Collaborators =
  Serialize :: "CatalogType \<Rightarrow> 'i \<Rightarrow> byte list"
  Deserialize :: "CatalogType \<Rightarrow> byte list \<Rightarrow> ('i \<times> byte list) option"
  BindCreateTableInfo :: "'i \<Rightarrow> 'i"
  WriteTableData :: "('i, 'd) CatalogEntry \<Rightarrow> MetaBlockWriter \<Rightarrow> MetaBlockWriter"
  ReadTableData :: "block_id_t \<Rightarrow> 64 word \<Rightarrow> 'i \<Rightarrow> 'd"
  tip_after :: "block_id_t \<times> 64 word \<Rightarrow> nat \<Rightarrow> block_id_t \<times> 64 word"
  stream_at :: "block_id_t \<Rightarrow> byte list"

definition WriteData :: "('i, 'd) Collaborators \<Rightarrow> byte list \<Rightarrow> MetaBlockWriter \<Rightarrow> MetaBlockWriter" where
  "WriteData env bytes w =
     (let (b, off) = tip_after env (block_id w, offset w) (length bytes)
      in \<lparr>block_id = b, offset = off, written = written w @ bytes\<rparr>)"

text \<open>
  What loading does to the world, in order: the transaction it opens and commits, the
  readers it opens (with the offset a reader is moved to, if it is moved), and the entries
  it creates in the catalog.
\<close>

datatype OnCreateConflict = ERROR_ON_CONFLICT | IGNORE_ON_CONFLICT

datatype ('i, 'd) load_event =
  BeginTransaction
  | OpenReader block_id_t "64 word option"
  | CreateSchema 'i OnCreateConflict
  | CreateSequence 'i
  | CreateTable 'i 'd
  | CreateView 'i
  | CreateFunction 'i
  | Commit

record CheckpointManager =
  metadata_writer :: MetaBlockWriter
  tabledata_writer :: MetaBlockWriter

subsection \<open>Views, sequences and macros\<close>

definition WriteView ::
  "('i, 'd) Collaborators \<Rightarrow> ('i, 'd) CatalogEntry \<Rightarrow> CheckpointManager \<Rightarrow> CheckpointManager" where
  "WriteView env view cm =
     cm\<lparr>metadata_writer := WriteData env (Serialize env VIEW_ENTRY (entry_info view)) (metadata_writer cm)\<rparr>"

definition ReadView ::
  "('i, 'd) Collaborators \<Rightarrow> byte list \<Rightarrow> ('i, 'd) load_event list \<Rightarrow>
   load_error + (byte list \<times> ('i, 'd) load_event list)" where
  "ReadView env reader log =
     (case Deserialize env VIEW_ENTRY reader of
        None \<Rightarrow> Inl SerializationException
      | Some (info, reader') \<Rightarrow> Inr (reader', log @ [CreateView info]))"

definition WriteSequence ::
  "('i, 'd) Collaborators \<Rightarrow> ('i, 'd) CatalogEntry \<Rightarrow> CheckpointManager \<Rightarrow> CheckpointManager" where
  "WriteSequence env seq cm =
     cm\<lparr>metadata_writer := WriteData env (Serialize env SEQUENCE_ENTRY (entry_info seq)) (metadata_writer cm)\<rparr>"

definition ReadSequence ::
  "('i, 'd) Collaborators \<Rightarrow> byte list \<Rightarrow> ('i, 'd) load_event list \<Rightarrow>
   load_error + (byte list \<times> ('i, 'd) load_event list)" where
  "ReadSequence env reader log =
     (case Deserialize env SEQUENCE_ENTRY reader of
        None \<Rightarrow> Inl SerializationException
      | Some (info, reader') \<Rightarrow> Inr (reader', log @ [CreateSequence info]))"

definition WriteMacro ::
  "('i, 'd) Collaborators \<Rightarrow> ('i, 'd) CatalogEntry \<Rightarrow> CheckpointManager \<Rightarrow> CheckpointManager" where
  "WriteMacro env macro cm =
     cm\<lparr>metadata_writer := WriteData env (Serialize env MACRO_ENTRY (entry_info macro)) (metadata_writer cm)\<rparr>"

definition ReadMacro ::
  "('i, 'd) Collaborators \<Rightarrow> byte list \<Rightarrow> ('i, 'd) load_event list \<Rightarrow>
   load_error + (byte list \<times> ('i, 'd) load_event list)" where
  "ReadMacro env reader log =
     (case Deserialize env MACRO_ENTRY reader of
        None \<Rightarrow> Inl SerializationException
      | Some (info, reader') \<Rightarrow> Inr (reader', log @ [CreateFunction info]))"

subsection \<open>Table metadata\<close>

definition WriteTable ::
  "('i, 'd) Collaborators \<Rightarrow> ('i, 'd) CatalogEntry \<Rightarrow> CheckpointManager \<Rightarrow> CheckpointManager" where
  "WriteTable env table cm =
     (let w1 = WriteData env (Serialize env TABLE_ENTRY (entry_info table)) (metadata_writer cm);
          w2 = WriteData env (write_u64 (block_id (tabledata_writer cm))) w1;
          w3 = WriteData env (write_u64 (offset (tabledata_writer cm))) w2
      in cm\<lparr>metadata_writer := w3,
             tabledata_writer := WriteTableData env table (tabledata_writer cm)\<rparr>)"

definition ReadTable ::
  "('i, 'd) Collaborators \<Rightarrow> byte list \<Rightarrow> ('i, 'd) load_event list \<Rightarrow>
   load_error + (byte list \<times> ('i, 'd) load_event list)" where
  "ReadTable env reader log =
     (case Deserialize env TABLE_ENTRY reader of
        None \<Rightarrow> Inl SerializationException
      | Some (info, reader1) \<Rightarrow>
          let bound_info = BindCreateTableInfo env info in
          (case read_u64 reader1 of
             Inl e \<Rightarrow> Inl e
           | Inr (block, reader2) \<Rightarrow>
               (case read_u64 reader2 of
                  Inl e \<Rightarrow> Inl e
                | Inr (off, reader3) \<Rightarrow>
                    let log1 = log @ [OpenReader block (Some off)];
                        data = ReadTableData env block off bound_info
                    in Inr (reader3, log1 @ [CreateTable bound_info data]))))"

subsection \<open>Schema\<close>

text \<open>
  The scan of the table scope sorts the entries into tables and views and throws on any
  other type.
\<close>

fun scan_tables ::
  "('i, 'd) CatalogEntry list \<Rightarrow>
   load_error + (('i, 'd) CatalogEntry list \<times> ('i, 'd) CatalogEntry list)" where
  "scan_tables [] = Inr ([], [])"
| "scan_tables (entry # entries) =
     (if entry_type entry = TABLE_ENTRY then
        (case scan_tables entries of
           Inl e \<Rightarrow> Inl e | Inr (tables, views) \<Rightarrow> Inr (entry # tables, views))
      else if entry_type entry = VIEW_ENTRY then
        (case scan_tables entries of
           Inl e \<Rightarrow> Inl e | Inr (tables, views) \<Rightarrow> Inr (tables, entry # views))
      else Inl NotImplementedException)"

text \<open>A range-based \<^verbatim>\<open>for\<close> loop that writes the entries of a vector one after the other.\<close>

fun write_each ::
  "(('i, 'd) CatalogEntry \<Rightarrow> CheckpointManager \<Rightarrow> CheckpointManager) \<Rightarrow>
   ('i, 'd) CatalogEntry list \<Rightarrow> CheckpointManager \<Rightarrow> CheckpointManager" where
  "write_each write [] cm = cm"
| "write_each write (entry # entries) cm = write_each write entries (write entry cm)"

definition write_count :: "('i, 'd) Collaborators \<Rightarrow> nat \<Rightarrow> CheckpointManager \<Rightarrow> CheckpointManager" where
  "write_count env n cm =
     cm\<lparr>metadata_writer := WriteData env (write_u32 (of_nat n)) (metadata_writer cm)\<rparr>"

definition WriteSchema ::
  "('i, 'd) Collaborators \<Rightarrow> ('i, 'd) SchemaCatalogEntry \<Rightarrow> CheckpointManager \<Rightarrow>
   load_error + CheckpointManager" where
  "WriteSchema env schema cm =
     (let cm1 = cm\<lparr>metadata_writer :=
                     WriteData env (Serialize env SCHEMA_ENTRY (schema_info schema)) (metadata_writer cm)\<rparr>
      in case scan_tables (table_scope schema) of
           Inl e \<Rightarrow> Inl e
         | Inr (tables, views) \<Rightarrow>
             let sequences = sequence_scope schema;
                 macros = filter (\<lambda>entry. entry_type entry = MACRO_ENTRY) (function_scope schema);
                 cm2 = write_each (WriteSequence env) sequences (write_count env (length sequences) cm1);
                 cm3 = write_each (WriteTable env) tables (write_count env (length tables) cm2);
                 cm4 = write_each (WriteView env) views (write_count env (length views) cm3);
                 cm5 = write_each (WriteMacro env) macros (write_count env (length macros) cm4)
             in Inr cm5)"

text \<open>A counting \<^verbatim>\<open>for\<close> loop that reads as many entries as the count says.\<close>

fun read_each ::
  "(byte list \<Rightarrow> ('i, 'd) load_event list \<Rightarrow> load_error + (byte list \<times> ('i, 'd) load_event list)) \<Rightarrow>
   nat \<Rightarrow> byte list \<Rightarrow> ('i, 'd) load_event list \<Rightarrow>
   load_error + (byte list \<times> ('i, 'd) load_event list)" where
  "read_each read 0 reader log = Inr (reader, log)"
| "read_each read (Suc n) reader log =
     (case read reader log of
        Inl e \<Rightarrow> Inl e
      | Inr (reader', log') \<Rightarrow> read_each read n reader' log')"

definition read_counted ::
  "(byte list \<Rightarrow> ('i, 'd) load_event list \<Rightarrow> load_error + (byte list \<times> ('i, 'd) load_event list)) \<Rightarrow>
   byte list \<Rightarrow> ('i, 'd) load_event list \<Rightarrow>
   load_error + (byte list \<times> ('i, 'd) load_event list)" where
  "read_counted read reader log =
     (case read_u32 reader of
        Inl e \<Rightarrow> Inl e
      | Inr (count, reader') \<Rightarrow> read_each read (unat count) reader' log)"

definition ReadSchema ::
  "('i, 'd) Collaborators \<Rightarrow> byte list \<Rightarrow> ('i, 'd) load_event list \<Rightarrow>
   load_error + (byte list \<times> ('i, 'd) load_event list)" where
  "ReadSchema env reader log =
     (case Deserialize env SCHEMA_ENTRY reader of
        None \<Rightarrow> Inl SerializationException
      | Some (info, reader0) \<Rightarrow>
          (case read_counted (ReadSequence env) reader0 (log @ [CreateSchema info IGNORE_ON_CONFLICT]) of
             Inl e \<Rightarrow> Inl e
           | Inr (reader1, log1) \<Rightarrow>
               (case read_counted (ReadTable env) reader1 log1 of
                  Inl e \<Rightarrow> Inl e
                | Inr (reader2, log2) \<Rightarrow>
                    (case read_counted (ReadView env) reader2 log2 of
                       Inl e \<Rightarrow> Inl e
                     | Inr (reader3, log3) \<Rightarrow> read_counted (ReadMacro env) reader3 log3))))"

subsection \<open>Loading\<close>

definition LoadFromStorage ::
  "('i, 'd) Collaborators \<Rightarrow> block_id_t \<Rightarrow> ('i, 'd) load_event list \<Rightarrow>
   load_error + ('i, 'd) load_event list" where
  "LoadFromStorage env meta_block log =
     (if sint meta_block < 0 then Inr log
      else
        let log1 = log @ [BeginTransaction, OpenReader meta_block None];
            reader = stream_at env meta_block
        in case read_counted (ReadSchema env) reader log1 of
             Inl e \<Rightarrow> Inl e
           | Inr (reader', log2) \<Rightarrow> Inr (log2 @ [Commit]))"


section \<open>Notions used to state the properties\<close>

text \<open>A reference is valid when the slot it names exists.\<close>

definition valid_ref :: "('r, 'st) PipelineExecutor \<Rightarrow> chunk_ref \<Rightarrow> bool" where
  "valid_ref s r =
     (case r of
        Intermediate i \<Rightarrow> i < length (intermediate_chunks s)
      | Cached i \<Rightarrow> i < length (cached_chunks s) \<and> cached_chunks s ! i \<noteq> None
      | _ \<Rightarrow> True)"

definition is_cached_ref :: "chunk_ref \<Rightarrow> bool" where
  "is_cached_ref r = (case r of Cached i \<Rightarrow> True | _ \<Rightarrow> False)"

text \<open>The condition under which the constructor gives operator \<open>i\<close> a cache slot.\<close>

definition allocates_cache :: "('r, 'st) Pipeline \<Rightarrow> nat \<Rightarrow> bool" where
  "allocates_cache P i =
     ((case sink P of None \<Rightarrow> False | Some snk \<Rightarrow> \<not> SinkOrderMatters snk)
      \<and> RequiresCache (operators P ! i)
      \<and> can_cache_types (GetTypes (operators P ! i)))"

subsection \<open>Concrete pipelines and executors\<close>


definition K128 :: BuildConstants where
  "K128 = \<lparr>STANDARD_VECTOR_SIZE = 128, CACHE_THRESHOLD = 2, DEBUG = True\<rparr>"

text \<open>The same constants in a release build, where \<^verbatim>\<open>D_ASSERT\<close> is empty.\<close>

definition K128_release :: BuildConstants where
  "K128_release = \<lparr>STANDARD_VECTOR_SIZE = 128, CACHE_THRESHOLD = 2, DEBUG = False\<rparr>"

definition blank_executor :: "(nat, nat) PipelineExecutor" where
  "blank_executor =
     \<lparr>local_source_state = 0, local_sink_state = Some 0, intermediate_chunks = [],
      intermediate_states = [], cached_chunks = [], in_process_operators = [],
      final_chunk = Initialize [], finished_processing = False, finalized = False,
      source_state = 0, sink_state = 0, interrupted = False,
      caller_chunk = Initialize [], calls = []\<rparr>"

text \<open>A source that hands out the rows \<open>g, g - 1, \<dots>, 1\<close> once and is then exhausted.\<close>

definition countdown_source :: "(nat, nat) PhysicalSource" where
  "countdown_source =
     \<lparr>SourceTypes = [LogicalType INTEGER []],
      GetLocalSourceState = (\<lambda>g. g),
      GetData = (\<lambda>g l. (rev [1..<Suc l], g, 0))\<rparr>"

text \<open>A sink that counts the rows it is given and never finishes early.\<close>

definition counting_sink :: "(nat, nat) PhysicalSink" where
  "counting_sink =
     \<lparr>SinkOrderMatters = False,
      GetLocalSinkState = 0,
      Sink = (\<lambda>g l rows. (SINK_NEED_MORE_INPUT, g, l + length rows)),
      Combine = (\<lambda>g l. g + l)\<rparr>"

text \<open>A filter that keeps the even rows and asks for its output to be cached.\<close>

definition even_filter :: "(nat, nat) PhysicalOperator" where
  "even_filter =
     \<lparr>GetTypes = [LogicalType INTEGER []],
      RequiresCache = True,
      GetOperatorState = 0,
      OperatorExecute = (\<lambda>rows st. (NEED_MORE_INPUT, filter even rows, st))\<rparr>"

definition filter_pipeline :: "(nat, nat) Pipeline" where
  "filter_pipeline = \<lparr>source = countdown_source, operators = [even_filter], sink = Some counting_sink\<rparr>"





subsection \<open>Reading the list of calls\<close>

fun is_finished_call :: "'r call \<Rightarrow> bool" where
  "is_finished_call (OperatorCall j prev r out) = (r = FINISHED)"
| "is_finished_call c = False"

fun call_output :: "'r call \<Rightarrow> 'r list" where
  "call_output (OperatorCall j prev r out) = out"
| "call_output c = []"

text \<open>Since the calls \<open>c0\<close>, no operator has answered \<^verbatim>\<open>FINISHED\<close>.\<close>

definition no_finished_since :: "'r call list \<Rightarrow> ('r, 'st) PipelineExecutor \<Rightarrow> bool" where
  "no_finished_since c0 s = (\<exists>new. calls s = c0 @ new \<and> (\<forall>c \<in> set new. \<not> is_finished_call c))"


text \<open>
  An operator that hands out its input in two halves: the first half with
  \<^verbatim>\<open>HAVE_MORE_OUTPUT\<close>, the second half, on the next call, with \<^verbatim>\<open>NEED_MORE_INPUT\<close>.
\<close>

definition halving_operator :: "(nat, nat) PhysicalOperator" where
  "halving_operator =
     \<lparr>GetTypes = [LogicalType INTEGER []],
      RequiresCache = False,
      GetOperatorState = 0,
      OperatorExecute = (\<lambda>rows st.
         if st = 0 then (HAVE_MORE_OUTPUT, take (length rows div 2) rows, 1)
         else (NEED_MORE_INPUT, drop (length rows div 2) rows, 0))\<rparr>"

definition halving_pipeline :: "(nat, nat) Pipeline" where
  "halving_pipeline =
     \<lparr>source = countdown_source, operators = [halving_operator], sink = Some counting_sink\<rparr>"

definition four_rows :: "nat DataChunk" where
  "four_rows = \<lparr>chunk_types = [LogicalType INTEGER []], chunk_rows = [4, 3, 2, 1]\<rparr>"

definition halving_executor :: "(nat, nat) PipelineExecutor" where
  "halving_executor = new_PipelineExecutor halving_pipeline 4 0 False four_rows"

text \<open>The halving executor after \<^verbatim>\<open>Execute\<close> has run once on the four rows.\<close>

definition halving_after_first :: "(nat, nat) PipelineExecutor" where
  "halving_after_first =
     \<lparr>local_source_state = 4, local_sink_state = Some 0,
      intermediate_chunks = [\<lparr>chunk_types = [LogicalType INTEGER []], chunk_rows = []\<rparr>],
      intermediate_states = [1], cached_chunks = [None],
      in_process_operators = [1],
      final_chunk = \<lparr>chunk_types = [LogicalType INTEGER []], chunk_rows = [4, 3]\<rparr>,
      finished_processing = False, finalized = False, source_state = 4,
      sink_state = 0, interrupted = False,
      caller_chunk = four_rows,
      calls = [OperatorCall 0 [4, 3, 2, 1] HAVE_MORE_OUTPUT [4, 3]]\<rparr>"

text \<open>
  An operator that answers \<^verbatim>\<open>FINISHED\<close> and writes no rows, behind the halving operator;
  and an operator that answers \<^verbatim>\<open>FINISHED\<close> but hands out the rows it was given.
\<close>

definition finishing_operator :: "(nat, nat) PhysicalOperator" where
  "finishing_operator =
     \<lparr>GetTypes = [LogicalType INTEGER []],
      RequiresCache = False,
      GetOperatorState = 0,
      OperatorExecute = (\<lambda>rows st. (FINISHED, [], st))\<rparr>"

definition finishing_pipeline :: "(nat, nat) Pipeline" where
  "finishing_pipeline =
     \<lparr>source = countdown_source, operators = [halving_operator, finishing_operator],
      sink = Some counting_sink\<rparr>"

definition finishing_executor :: "(nat, nat) PipelineExecutor" where
  "finishing_executor = new_PipelineExecutor finishing_pipeline 4 0 False four_rows"

definition finishing_finished :: "(nat, nat) PipelineExecutor" where
  "finishing_finished =
     \<lparr>local_source_state = 4, local_sink_state = Some 0,
      intermediate_chunks =
        [\<lparr>chunk_types = [LogicalType INTEGER []], chunk_rows = []\<rparr>,
         \<lparr>chunk_types = [LogicalType INTEGER []], chunk_rows = [4, 3]\<rparr>],
      intermediate_states = [1, 0], cached_chunks = [None, None],
      in_process_operators = [1],
      final_chunk = \<lparr>chunk_types = [LogicalType INTEGER []], chunk_rows = []\<rparr>,
      finished_processing = False, finalized = False, source_state = 4,
      sink_state = 0, interrupted = False,
      caller_chunk = four_rows,
      calls = [OperatorCall 0 [4, 3, 2, 1] HAVE_MORE_OUTPUT [4, 3],
               OperatorCall 1 [4, 3] FINISHED []]\<rparr>"

definition eager_operator :: "(nat, nat) PhysicalOperator" where
  "eager_operator =
     \<lparr>GetTypes = [LogicalType INTEGER []],
      RequiresCache = False,
      GetOperatorState = 0,
      OperatorExecute = (\<lambda>rows st. (FINISHED, rows, st))\<rparr>"

definition eager_pipeline :: "(nat, nat) Pipeline" where
  "eager_pipeline =
     \<lparr>source = countdown_source, operators = [eager_operator], sink = Some counting_sink\<rparr>"

definition eager_executor :: "(nat, nat) PipelineExecutor" where
  "eager_executor = new_PipelineExecutor eager_pipeline 4 0 False four_rows"

definition eager_finished :: "(nat, nat) PipelineExecutor" where
  "eager_finished =
     \<lparr>local_source_state = 4, local_sink_state = Some 0,
      intermediate_chunks = [\<lparr>chunk_types = [LogicalType INTEGER []], chunk_rows = []\<rparr>],
      intermediate_states = [0], cached_chunks = [None],
      in_process_operators = [],
      final_chunk = \<lparr>chunk_types = [LogicalType INTEGER []], chunk_rows = [4, 3, 2, 1]\<rparr>,
      finished_processing = False, finalized = False, source_state = 4,
      sink_state = 0, interrupted = False,
      caller_chunk = four_rows,
      calls = [OperatorCall 0 [4, 3, 2, 1] FINISHED [4, 3, 2, 1]]\<rparr>"

text \<open>
  A pipeline whose filter caches a small chunk and whose sink finishes early. The source
  hands out the rows \<open>3, 2, 1\<close>, then \<open>4, 2\<close>, then nothing; the sink answers \<^verbatim>\<open>FINISHED\<close>
  to every chunk it is given and counts the rows.
\<close>

definition two_chunk_source :: "(nat, nat) PhysicalSource" where
  "two_chunk_source =
     \<lparr>SourceTypes = [LogicalType INTEGER []],
      GetLocalSourceState = (\<lambda>g. 0),
      GetData = (\<lambda>g l. (if l = 0 then [3, 2, 1] else if l = 1 then [4, 2] else [], g, l + 1))\<rparr>"

definition finishing_sink :: "(nat, nat) PhysicalSink" where
  "finishing_sink =
     \<lparr>SinkOrderMatters = False,
      GetLocalSinkState = 0,
      Sink = (\<lambda>g l rows. (SINK_FINISHED, g, l + length rows)),
      Combine = (\<lambda>g l. g + l)\<rparr>"

text \<open>
  The halving operator in front of the sink that finishes early: the executor as
  constructed, after the four rows have been pushed, and after two more rows have been
  pushed.
\<close>

definition halving_finish_pipeline :: "(nat, nat) Pipeline" where
  "halving_finish_pipeline =
     \<lparr>source = countdown_source, operators = [halving_operator], sink = Some finishing_sink\<rparr>"


definition halving_finish_executor :: "(nat, nat) PipelineExecutor" where
  "halving_finish_executor = new_PipelineExecutor halving_finish_pipeline 4 0 False four_rows"



definition early_finish_pipeline :: "(nat, nat) Pipeline" where
  "early_finish_pipeline =
     \<lparr>source = two_chunk_source, operators = [even_filter], sink = Some finishing_sink\<rparr>"

definition early_finish_executor :: "(nat, nat) PipelineExecutor" where
  "early_finish_executor = new_PipelineExecutor early_finish_pipeline 0 0 False (Initialize [])"

definition first_chunk :: "nat DataChunk" where
  "first_chunk = \<lparr>chunk_types = [LogicalType INTEGER []], chunk_rows = [3, 2, 1]\<rparr>"

definition second_chunk :: "nat DataChunk" where
  "second_chunk = \<lparr>chunk_types = [LogicalType INTEGER []], chunk_rows = [4, 2]\<rparr>"

text \<open>
  What a push started at \<open>initial_idx\<close> leaves alone: the two status flags, the number of
  chunks and slots, and, in a build that checks the assertion of \<^verbatim>\<open>GoToSource\<close>, the cache
  slots of the operators in front of \<open>initial_idx\<close>.
\<close>

definition push_frame ::
  "BuildConstants \<Rightarrow> nat \<Rightarrow> ('r, 'st) PipelineExecutor \<Rightarrow> ('r, 'st) PipelineExecutor \<Rightarrow> bool" where
  "push_frame K initial_idx s s' =
     (finalized s' = finalized s
      \<and> finished_processing s' = finished_processing s
      \<and> interrupted s' = interrupted s
      \<and> length (cached_chunks s') = length (cached_chunks s)
      \<and> length (intermediate_chunks s') = length (intermediate_chunks s)
      \<and> (DEBUG K \<longrightarrow> (\<forall>j < initial_idx. cached_chunks s' ! j = cached_chunks s ! j)))"

text \<open>
  The flush of \<^verbatim>\<open>PushFinalize\<close> in the words of the specification: the slots are visited
  in the given order, and each one that exists and holds rows is flushed.
\<close>

fun flush_in_order ::
  "BuildConstants \<Rightarrow> ('r, 'st) Pipeline \<Rightarrow> nat list \<Rightarrow> ('r, 'st) PipelineExecutor \<Rightarrow>
   ((error + unit) \<times> ('r, 'st) PipelineExecutor) option" where
  "flush_in_order K P [] s = Some (Inr (), s)"
| "flush_in_order K P (i # slots) s =
     (if cached_chunks s ! i \<noteq> None \<and> size_chunk (get_chunk s (Cached i)) > 0 then
        (case ExecutePushInternal K P (Cached i) (i + 1) s of
           None \<Rightarrow> None
         | Some (Inl e, s1) \<Rightarrow> Some (Inl e, s1)
         | Some (Inr r, s1) \<Rightarrow>
             flush_in_order K P slots (s1\<lparr>cached_chunks := (cached_chunks s1)[i := None]\<rparr>))
      else flush_in_order K P slots s)"

text \<open>A cache slot holds no rows: it does not exist or its chunk is empty.\<close>

definition slot_empty :: "'r DataChunk option \<Rightarrow> bool" where
  "slot_empty c = (case c of None \<Rightarrow> True | Some chunk \<Rightarrow> size_chunk chunk = 0)"

text \<open>
  The states the early-finish pipeline goes through: as constructed; after the first chunk
  has been pushed (its one even row sits in the cache); after the second chunk has been
  pushed (the sink has finished); and after \<^verbatim>\<open>PushFinalize\<close> has then been called. The last
  two are what the parameterless \<^verbatim>\<open>Execute()\<close> reaches after its loop and at its end.
\<close>

definition early_finish_start :: "(nat, nat) PipelineExecutor" where
  "early_finish_start =
     \<lparr>local_source_state = 0, local_sink_state = Some 0,
      intermediate_chunks = [\<lparr>chunk_types = [LogicalType INTEGER []], chunk_rows = []\<rparr>],
      intermediate_states = [0],
      cached_chunks = [Some \<lparr>chunk_types = [LogicalType INTEGER []], chunk_rows = []\<rparr>],
      in_process_operators = [],
      final_chunk = \<lparr>chunk_types = [LogicalType INTEGER []], chunk_rows = []\<rparr>,
      finished_processing = False, finalized = False, source_state = 0,
      sink_state = 0, interrupted = False,
      caller_chunk = \<lparr>chunk_types = [], chunk_rows = []\<rparr>, calls = []\<rparr>"

definition early_finish_cached :: "(nat, nat) PipelineExecutor" where
  "early_finish_cached = early_finish_start
     \<lparr>cached_chunks := [Some \<lparr>chunk_types = [LogicalType INTEGER []], chunk_rows = [2]\<rparr>],
      caller_chunk := first_chunk,
      calls := [OperatorCall 0 [3, 2, 1] NEED_MORE_INPUT [2]]\<rparr>"

definition early_finish_pushed :: "(nat, nat) PipelineExecutor" where
  "early_finish_pushed = early_finish_cached
     \<lparr>local_sink_state := Some 2,
      final_chunk := \<lparr>chunk_types = [LogicalType INTEGER []], chunk_rows = [4, 2]\<rparr>,
      caller_chunk := second_chunk,
      calls := [OperatorCall 0 [3, 2, 1] NEED_MORE_INPUT [2],
                OperatorCall 0 [4, 2] NEED_MORE_INPUT [4, 2],
                SinkCall [4, 2] SINK_FINISHED]\<rparr>"

definition early_finish_flushed :: "(nat, nat) PipelineExecutor" where
  "early_finish_flushed = early_finish_pushed
     \<lparr>local_sink_state := None,
      cached_chunks := [None],
      final_chunk := \<lparr>chunk_types = [LogicalType INTEGER []], chunk_rows = [2]\<rparr>,
      finalized := True,
      sink_state := 3,
      calls := [OperatorCall 0 [3, 2, 1] NEED_MORE_INPUT [2],
                OperatorCall 0 [4, 2] NEED_MORE_INPUT [4, 2],
                SinkCall [4, 2] SINK_FINISHED,
                SinkCall [2] SINK_FINISHED,
                CombineCall]\<rparr>"

definition early_finish_stopped :: "(nat, nat) PipelineExecutor" where
  "early_finish_stopped = early_finish_start
     \<lparr>local_source_state := 2, local_sink_state := Some 2,
      intermediate_chunks := [\<lparr>chunk_types = [LogicalType INTEGER []], chunk_rows = [4, 2]\<rparr>],
      cached_chunks := [Some \<lparr>chunk_types = [LogicalType INTEGER []], chunk_rows = [2]\<rparr>],
      final_chunk := \<lparr>chunk_types = [LogicalType INTEGER []], chunk_rows = [4, 2]\<rparr>,
      finished_processing := True,
      calls := [OperatorCall 0 [3, 2, 1] NEED_MORE_INPUT [2],
                OperatorCall 0 [4, 2] NEED_MORE_INPUT [4, 2],
                SinkCall [4, 2] SINK_FINISHED]\<rparr>"

definition early_finish_end :: "(nat, nat) PipelineExecutor" where
  "early_finish_end = early_finish_stopped
     \<lparr>local_sink_state := None, finalized := True, sink_state := 2,
      calls := [OperatorCall 0 [3, 2, 1] NEED_MORE_INPUT [2],
                OperatorCall 0 [4, 2] NEED_MORE_INPUT [4, 2],
                SinkCall [4, 2] SINK_FINISHED,
                CombineCall]\<rparr>"

text \<open>The first of these states once \<^verbatim>\<open>PushFinalize\<close> has flushed its cache.\<close>

definition early_finish_cached_flushed :: "(nat, nat) PipelineExecutor" where
  "early_finish_cached_flushed = early_finish_cached
     \<lparr>local_sink_state := None,
      cached_chunks := [None],
      final_chunk := \<lparr>chunk_types = [LogicalType INTEGER []], chunk_rows = [2]\<rparr>,
      finalized := True,
      sink_state := 1,
      calls := [OperatorCall 0 [3, 2, 1] NEED_MORE_INPUT [2],
                SinkCall [2] SINK_FINISHED,
                CombineCall]\<rparr>"

text \<open>
  Three caching operators in front of the sink that finishes early: the filter of the even
  rows; an operator that hands out two rows of its first input, all rows of its second
  input with \<^verbatim>\<open>HAVE_MORE_OUTPUT\<close>, and then one row; and an operator that hands out the
  first row. The executor as constructed, after the rows \<open>3, 2, 1\<close> have been pushed, after
  the rows \<open>8, 6, 4\<close> have been pushed, and after \<^verbatim>\<open>PushFinalize\<close> in a release build.
\<close>

definition staged_operator :: "(nat, nat) PhysicalOperator" where
  "staged_operator =
     \<lparr>GetTypes = [LogicalType INTEGER []],
      RequiresCache = True,
      GetOperatorState = 0,
      OperatorExecute = (\<lambda>rows st.
         if st = 0 then (NEED_MORE_INPUT, take 2 rows, 1)
         else if st = 1 then (HAVE_MORE_OUTPUT, rows, 2)
         else (NEED_MORE_INPUT, take 1 rows, 0))\<rparr>"

definition first_row_operator :: "(nat, nat) PhysicalOperator" where
  "first_row_operator =
     \<lparr>GetTypes = [LogicalType INTEGER []],
      RequiresCache = True,
      GetOperatorState = 0,
      OperatorExecute = (\<lambda>rows st. (NEED_MORE_INPUT, take 1 rows, st))\<rparr>"

definition staged_pipeline :: "(nat, nat) Pipeline" where
  "staged_pipeline =
     \<lparr>source = countdown_source, operators = [even_filter, staged_operator, first_row_operator],
      sink = Some finishing_sink\<rparr>"

definition three_even :: "nat DataChunk" where
  "three_even = \<lparr>chunk_types = [LogicalType INTEGER []], chunk_rows = [8, 6, 4]\<rparr>"

definition staged_executor :: "(nat, nat) PipelineExecutor" where
  "staged_executor = new_PipelineExecutor staged_pipeline 0 0 False (Initialize [])"

definition staged_first :: "(nat, nat) PipelineExecutor" where
  "staged_first =
     \<lparr>local_source_state = 0, local_sink_state = Some 0,
      intermediate_chunks =
        [\<lparr>chunk_types = [LogicalType INTEGER []], chunk_rows = []\<rparr>,
         \<lparr>chunk_types = [LogicalType INTEGER []], chunk_rows = []\<rparr>,
         \<lparr>chunk_types = [LogicalType INTEGER []], chunk_rows = []\<rparr>],
      intermediate_states = [0, 0, 0],
      cached_chunks =
        [Some \<lparr>chunk_types = [LogicalType INTEGER []], chunk_rows = [2]\<rparr>,
         Some \<lparr>chunk_types = [LogicalType INTEGER []], chunk_rows = []\<rparr>,
         Some \<lparr>chunk_types = [LogicalType INTEGER []], chunk_rows = []\<rparr>],
      in_process_operators = [],
      final_chunk = \<lparr>chunk_types = [LogicalType INTEGER []], chunk_rows = []\<rparr>,
      finished_processing = False, finalized = False, source_state = 0,
      sink_state = 0, interrupted = False,
      caller_chunk = first_chunk,
      calls = [OperatorCall 0 [3, 2, 1] NEED_MORE_INPUT [2]]\<rparr>"

definition staged_loaded :: "(nat, nat) PipelineExecutor" where
  "staged_loaded = staged_first
     \<lparr>intermediate_chunks :=
        [\<lparr>chunk_types = [LogicalType INTEGER []], chunk_rows = []\<rparr>,
         \<lparr>chunk_types = [LogicalType INTEGER []], chunk_rows = [8, 6, 4]\<rparr>,
         \<lparr>chunk_types = [LogicalType INTEGER []], chunk_rows = [8, 6]\<rparr>],
      intermediate_states := [0, 1, 0],
      cached_chunks :=
        [Some \<lparr>chunk_types = [LogicalType INTEGER []], chunk_rows = [2]\<rparr>,
         Some \<lparr>chunk_types = [LogicalType INTEGER []], chunk_rows = []\<rparr>,
         Some \<lparr>chunk_types = [LogicalType INTEGER []], chunk_rows = [8]\<rparr>],
      caller_chunk := three_even,
      calls :=
        [OperatorCall 0 [3, 2, 1] NEED_MORE_INPUT [2],
         OperatorCall 0 [8, 6, 4] NEED_MORE_INPUT [8, 6, 4],
         OperatorCall 1 [8, 6, 4] NEED_MORE_INPUT [8, 6],
         OperatorCall 2 [8, 6] NEED_MORE_INPUT [8]]\<rparr>"

definition staged_release_end :: "(nat, nat) PipelineExecutor" where
  "staged_release_end = staged_loaded
     \<lparr>local_sink_state := None,
      intermediate_chunks :=
        [\<lparr>chunk_types = [LogicalType INTEGER []], chunk_rows = []\<rparr>,
         \<lparr>chunk_types = [LogicalType INTEGER []], chunk_rows = [8, 6, 4]\<rparr>,
         \<lparr>chunk_types = [LogicalType INTEGER []], chunk_rows = []\<rparr>],
      intermediate_states := [0, 0, 0],
      cached_chunks :=
        [None, Some \<lparr>chunk_types = [LogicalType INTEGER []], chunk_rows = [8]\<rparr>, None],
      finalized := True,
      sink_state := 1,
      calls :=
        [OperatorCall 0 [3, 2, 1] NEED_MORE_INPUT [2],
         OperatorCall 0 [8, 6, 4] NEED_MORE_INPUT [8, 6, 4],
         OperatorCall 1 [8, 6, 4] NEED_MORE_INPUT [8, 6],
         OperatorCall 2 [8, 6] NEED_MORE_INPUT [8],
         OperatorCall 1 [2] HAVE_MORE_OUTPUT [2],
         OperatorCall 2 [2] NEED_MORE_INPUT [2],
         SinkCall [2] SINK_FINISHED,
         OperatorCall 1 [8, 6, 4] NEED_MORE_INPUT [8],
         CombineCall]\<rparr>"

subsection \<open>Notions used to state that a push returns\<close>


text \<open>
  What the constructor establishes and every push keeps: one state per operator, a local
  sink state, and a client that has not interrupted the query.
\<close>

definition executor_ok :: "('r, 'st) Pipeline \<Rightarrow> ('r, 'st) PipelineExecutor \<Rightarrow> bool" where
  "executor_ok P s =
     (length (intermediate_states s) = length (operators P)
      \<and> \<not> interrupted s
      \<and> local_sink_state s \<noteq> None)"

text \<open>
  The variant of the loops: for each position behind \<open>initial_idx\<close> that is on the stack or
  is the current one, one more than the rounds its operator still needs on the chunk it
  reads (given by \<open>rounds\<close>), and zero for the other positions. The lists are compared
  lexicographically, the operators in front first.
\<close>

definition pos_weight ::
  "(nat \<Rightarrow> 'r list \<Rightarrow> 'st \<Rightarrow> nat) \<Rightarrow> chunk_ref \<Rightarrow> nat \<Rightarrow> nat \<Rightarrow> ('r, 'st) PipelineExecutor \<Rightarrow>
   nat \<Rightarrow> nat" where
  "pos_weight rounds input initial_idx current_idx s j =
     (if initial_idx < j \<and> (j \<in> set (in_process_operators s) \<or> j = current_idx)
      then Suc (rounds (j - 1) (chunk_rows (get_chunk s (prev_ref input initial_idx j)))
                  (intermediate_states s ! (j - 1)))
      else 0)"

definition weights ::
  "(nat \<Rightarrow> 'r list \<Rightarrow> 'st \<Rightarrow> nat) \<Rightarrow> ('r, 'st) Pipeline \<Rightarrow> chunk_ref \<Rightarrow> nat \<Rightarrow> nat \<Rightarrow>
   ('r, 'st) PipelineExecutor \<Rightarrow> nat list" where
  "weights rounds P input initial_idx current_idx s =
     map (\<lambda>k. pos_weight rounds input initial_idx current_idx s (Suc k)) [0..<length (operators P)]"


subsection \<open>Notions used for the checkpoint manager\<close>

text \<open>What is assumed of the serializers: reading gives back what was written.\<close>

definition serializers_ok :: "('i, 'd) Collaborators \<Rightarrow> bool" where
  "serializers_ok env =
     (\<forall>ty info rest. Deserialize env ty (Serialize env ty info @ rest) = Some (info, rest))"

text \<open>
  The tip of the table-data stream at the moment each table of a list is written, the
  bytes a table puts into the metadata stream, and what reading them does.
\<close>

fun table_tips ::
  "('i, 'd) Collaborators \<Rightarrow> ('i, 'd) CatalogEntry list \<Rightarrow> MetaBlockWriter \<Rightarrow>
   (block_id_t \<times> 64 word) list" where
  "table_tips env [] td = []"
| "table_tips env (t # ts) td = (block_id td, offset td) # table_tips env ts (WriteTableData env t td)"

definition table_bytes ::
  "('i, 'd) Collaborators \<Rightarrow> ('i, 'd) CatalogEntry \<times> (block_id_t \<times> 64 word) \<Rightarrow> byte list" where
  "table_bytes env tt =
     Serialize env TABLE_ENTRY (entry_info (fst tt)) @ write_u64 (fst (snd tt)) @ write_u64 (snd (snd tt))"

definition table_events ::
  "('i, 'd) Collaborators \<Rightarrow> ('i, 'd) CatalogEntry \<times> (block_id_t \<times> 64 word) \<Rightarrow> ('i, 'd) load_event list" where
  "table_events env tt =
     (let bound_info = BindCreateTableInfo env (entry_info (fst tt)) in
      [OpenReader (fst (snd tt)) (Some (snd (snd tt))),
       CreateTable bound_info (ReadTableData env (fst (snd tt)) (snd (snd tt)) bound_info)])"

text \<open>
  The layout of a schema in the metadata stream in the words of the specification: the
  serialized schema, then the count and the entries of the sequences, of the tables, of the
  views and of the macros, in this order; and the entries that reading it creates.
\<close>

definition tables_of :: "('i, 'd) SchemaCatalogEntry \<Rightarrow> ('i, 'd) CatalogEntry list" where
  "tables_of schema = filter (\<lambda>entry. entry_type entry = TABLE_ENTRY) (table_scope schema)"

definition views_of :: "('i, 'd) SchemaCatalogEntry \<Rightarrow> ('i, 'd) CatalogEntry list" where
  "views_of schema = filter (\<lambda>entry. entry_type entry = VIEW_ENTRY) (table_scope schema)"

definition macros_of :: "('i, 'd) SchemaCatalogEntry \<Rightarrow> ('i, 'd) CatalogEntry list" where
  "macros_of schema = filter (\<lambda>entry. entry_type entry = MACRO_ENTRY) (function_scope schema)"

definition schema_bytes ::
  "('i, 'd) Collaborators \<Rightarrow> ('i, 'd) SchemaCatalogEntry \<Rightarrow> MetaBlockWriter \<Rightarrow> byte list" where
  "schema_bytes env schema td =
     Serialize env SCHEMA_ENTRY (schema_info schema)
     @ write_u32 (of_nat (length (sequence_scope schema)))
     @ concat (map (\<lambda>entry. Serialize env SEQUENCE_ENTRY (entry_info entry)) (sequence_scope schema))
     @ write_u32 (of_nat (length (tables_of schema)))
     @ concat (map (table_bytes env) (zip (tables_of schema) (table_tips env (tables_of schema) td)))
     @ write_u32 (of_nat (length (views_of schema)))
     @ concat (map (\<lambda>entry. Serialize env VIEW_ENTRY (entry_info entry)) (views_of schema))
     @ write_u32 (of_nat (length (macros_of schema)))
     @ concat (map (\<lambda>entry. Serialize env MACRO_ENTRY (entry_info entry)) (macros_of schema))"

definition schema_events ::
  "('i, 'd) Collaborators \<Rightarrow> ('i, 'd) SchemaCatalogEntry \<Rightarrow> MetaBlockWriter \<Rightarrow> ('i, 'd) load_event list" where
  "schema_events env schema td =
     CreateSchema (schema_info schema) IGNORE_ON_CONFLICT
     # map (\<lambda>entry. CreateSequence (entry_info entry)) (sequence_scope schema)
     @ concat (map (table_events env) (zip (tables_of schema) (table_tips env (tables_of schema) td)))
     @ map (\<lambda>entry. CreateView (entry_info entry)) (views_of schema)
     @ map (\<lambda>entry. CreateFunction (entry_info entry)) (macros_of schema)"

text \<open>
  Collaborators for a run: an entry's information is one byte and is serialized as that
  byte; table data is a number, found again under the block it was written to; every table
  takes one block of the table-data stream.
\<close>

definition byte_collaborators :: "(byte, nat) Collaborators" where
  "byte_collaborators =
     \<lparr>Serialize = (\<lambda>ty info. [info]),
      Deserialize = (\<lambda>ty bytes. case bytes of [] \<Rightarrow> None | b # rest \<Rightarrow> Some (b, rest)),
      BindCreateTableInfo = (\<lambda>info. info),
      WriteTableData = (\<lambda>table w. w\<lparr>block_id := block_id w + 1, offset := 8\<rparr>),
      ReadTableData = (\<lambda>block off info. unat block),
      tip_after = (\<lambda>(block, off) n. (block, off + of_nat n)),
      stream_at = (\<lambda>block. [])\<rparr>"

definition small_schema :: "(byte, nat) SchemaCatalogEntry" where
  "small_schema =
     \<lparr>schema_info = 1,
      table_scope = [\<lparr>entry_type = TABLE_ENTRY, entry_info = 3, entry_data = 7\<rparr>,
                     \<lparr>entry_type = VIEW_ENTRY, entry_info = 4, entry_data = 0\<rparr>],
      sequence_scope = [\<lparr>entry_type = SEQUENCE_ENTRY, entry_info = 2, entry_data = 0\<rparr>],
      function_scope = [\<lparr>entry_type = SCALAR_FUNCTION_ENTRY, entry_info = 9, entry_data = 0\<rparr>,
                        \<lparr>entry_type = MACRO_ENTRY, entry_info = 5, entry_data = 0\<rparr>]\<rparr>"

definition fresh_manager :: CheckpointManager where
  "fresh_manager =
     \<lparr>metadata_writer = \<lparr>block_id = 0, offset = 8, written = []\<rparr>,
      tabledata_writer = \<lparr>block_id = 7, offset = 8, written = []\<rparr>\<rparr>"

subsection \<open>Resumption of operators\<close>

text \<open>The calls made to the operator at one position, and what a call was given and answered.\<close>

fun is_call_of :: "nat \<Rightarrow> 'r call \<Rightarrow> bool" where
  "is_call_of j (OperatorCall j' prev r out) = (j' = j)"
| "is_call_of j c = False"

definition calls_of :: "nat \<Rightarrow> 'r call list \<Rightarrow> 'r call list" where
  "calls_of j cs = filter (is_call_of j) cs"


fun call_result :: "'r call \<Rightarrow> OperatorResultType" where
  "call_result (OperatorCall j prev r out) = r"
| "call_result c = NEED_MORE_INPUT"

text \<open>
  The calls of one operator, cut into runs: a run ends with the first call that is not
  answered \<^verbatim>\<open>HAVE_MORE_OUTPUT\<close>.
\<close>

fun runs :: "'r call list \<Rightarrow> 'r call list list" where
  "runs [] = []"
| "runs (c # cs) =
     (if call_result c = HAVE_MORE_OUTPUT
      then (case runs cs of [] \<Rightarrow> [[c]] | run # rest \<Rightarrow> (c # run) # rest)
      else [c] # runs cs)"


text \<open>
  The calls of one operator so far: the last one asked to be resumed; and every call that
  follows a call answered \<^verbatim>\<open>HAVE_MORE_OUTPUT\<close> was given the same rows as that call.
\<close>

definition pending :: "'r call list \<Rightarrow> bool" where
  "pending cs = (cs \<noteq> [] \<and> call_result (last cs) = HAVE_MORE_OUTPUT)"











section \<open>Properties of the pipeline executor\<close>

subsection \<open>Chunk references\<close>

lemma get_set_chunk_same:
  "valid_ref s r \<Longrightarrow> get_chunk (set_chunk r c s) r = c"
  by (cases r) (auto simp: valid_ref_def)

lemma cached_chunks_set_chunk [simp]:
  "\<not> is_cached_ref r \<Longrightarrow> cached_chunks (set_chunk r c s) = cached_chunks s"
  by (cases r) (auto simp: is_cached_ref_def)

lemma get_chunk_cached_upd [simp]:
  "\<not> is_cached_ref r \<Longrightarrow> get_chunk (s\<lparr>cached_chunks := cs\<rparr>) r = get_chunk s r"
  by (cases r) (auto simp: is_cached_ref_def)

lemma valid_ref_cached_upd [simp]:
  "\<not> is_cached_ref r \<Longrightarrow> valid_ref (s\<lparr>cached_chunks := cs\<rparr>) r = valid_ref s r"
  by (cases r) (auto simp: is_cached_ref_def valid_ref_def)

subsection \<open>What the small steps leave alone\<close>

lemma length_intermediate_set_chunk [simp]:
  "length (intermediate_chunks (set_chunk r c s)) = length (intermediate_chunks s)"
  by (cases r) auto

lemma length_cached_set_chunk [simp]:
  "length (cached_chunks (set_chunk r c s)) = length (cached_chunks s)"
  by (cases r) auto

lemma set_chunk_fields [simp]:
  "calls (set_chunk r c s) = calls s"
  "in_process_operators (set_chunk r c s) = in_process_operators s"
  "intermediate_states (set_chunk r c s) = intermediate_states s"
  "interrupted (set_chunk r c s) = interrupted s"
  "finalized (set_chunk r c s) = finalized s"
  "finished_processing (set_chunk r c s) = finished_processing s"
  "local_sink_state (set_chunk r c s) = local_sink_state s"
  "sink_state (set_chunk r c s) = sink_state s"
  "local_source_state (set_chunk r c s) = local_source_state s"
  "source_state (set_chunk r c s) = source_state s"
  by (cases r; simp)+

lemma get_chunk_set_chunk_other [simp]:
  "r' \<noteq> r \<Longrightarrow> get_chunk (set_chunk r c s) r' = get_chunk s r'"
  by (cases r; cases r') auto

lemma valid_ref_set_chunk [simp]:
  "valid_ref (set_chunk r c s) r' = valid_ref s r'"
  by (cases r; cases r') (auto simp: valid_ref_def nth_list_update)

lemma get_chunk_other_fields [simp]:
  "get_chunk (s\<lparr>calls := a\<rparr>) r = get_chunk s r"
  "get_chunk (s\<lparr>in_process_operators := b\<rparr>) r = get_chunk s r"
  "get_chunk (s\<lparr>intermediate_states := c\<rparr>) r = get_chunk s r"
  "get_chunk (s\<lparr>sink_state := d\<rparr>) r = get_chunk s r"
  "get_chunk (s\<lparr>local_sink_state := e\<rparr>) r = get_chunk s r"
  "get_chunk (s\<lparr>finalized := f\<rparr>) r = get_chunk s r"
  "get_chunk (s\<lparr>finished_processing := g\<rparr>) r = get_chunk s r"
  by (cases r; simp)+

lemma CacheChunk_fields [simp]:
  "calls (CacheChunk K P prev cur j s) = calls s"
  "in_process_operators (CacheChunk K P prev cur j s) = in_process_operators s"
  "intermediate_states (CacheChunk K P prev cur j s) = intermediate_states s"
  "interrupted (CacheChunk K P prev cur j s) = interrupted s"
  "finalized (CacheChunk K P prev cur j s) = finalized s"
  "finished_processing (CacheChunk K P prev cur j s) = finished_processing s"
  "local_sink_state (CacheChunk K P prev cur j s) = local_sink_state s"
  "sink_state (CacheChunk K P prev cur j s) = sink_state s"
  "length (cached_chunks (CacheChunk K P prev cur j s)) = length (cached_chunks s)"
  "length (intermediate_chunks (CacheChunk K P prev cur j s)) = length (intermediate_chunks s)"
  by (simp_all add: CacheChunk_def Let_def split: option.splits)

lemma get_chunk_cached_list_update:
  "r \<noteq> Cached j \<Longrightarrow> get_chunk (s\<lparr>cached_chunks := (cached_chunks s)[j := x]\<rparr>) r = get_chunk s r"
  by (cases r) (auto simp: nth_list_update)



lemma GoToSource_cases:
  assumes "GoToSource K i s = (r, s')"
  obtains (empty) "in_process_operators s = []" "r = Inr i" "s' = s"
  | (pop) c rest where "in_process_operators s = c # rest"
      "r = (if DEBUG K \<and> \<not> i \<le> c then Inl AssertionFailure else Inr c)"
      "s' = s\<lparr>in_process_operators := rest\<rparr>"
  using assms by (auto simp: GoToSource_def split: list.splits)


subsection \<open>One round of the Execute loop, case by case\<close>

lemma Execute_step_main:
  assumes b: "\<not> interrupted s" "idx \<noteq> initial_idx" "0 < idx" "idx \<le> length (operators P)"
      "idx \<le> length (intermediate_states s)"
    and call: "call_operator P (prev_ref input initial_idx idx) (current_ref s result idx) idx
       (set_chunk (current_ref s result idx) (Reset (get_chunk s (current_ref s result idx))) s) = (r, s3)"
    and s4: "s4 = CacheChunk K P (prev_ref input initial_idx idx) (current_ref s result idx) (idx - 1) s3"
    and go: "GoToSource K initial_idx s4 = (g, s5)"
  shows "Execute_step K P input result initial_idx idx s =
         (if r = FINISHED then
            (if DEBUG K \<and> \<not> size_chunk (get_chunk s3 (current_ref s result idx)) = 0
             then Exit (Return (Inl AssertionFailure) s3)
             else Exit (Return (Inr FINISHED) s3))
          else if size_chunk (get_chunk s4 (current_ref s result idx)) = 0 then
               (case g of Inl e \<Rightarrow> Exit (Return (Inl e) s5) | Inr idx' \<Rightarrow> Continue idx' s5)
            else
              (if idx + 1 > length (operators P) then Exit (Break s4)
               else Continue (idx + 1) s4))"
proof -
  have g1: "\<not> (idx = 0 \<or> idx - 1 \<ge> length (operators P) \<or> idx - 1 \<ge> length (intermediate_states (set_chunk (current_ref s result idx) (Reset (get_chunk s (current_ref s result idx))) s)))"
    using b by auto
  have g2: "\<not> interrupted (set_chunk (current_ref s result idx) (Reset (get_chunk s (current_ref s result idx))) s)"
    using b by simp
  show ?thesis
    unfolding Execute_step_def Let_def
    by (simp only: b g1 g2 if_False call prod.case s4[symmetric] go)
qed

lemma Execute_step_interrupted:
  "interrupted s \<Longrightarrow> Execute_step K P input result initial_idx idx s = Exit (Return (Inl InterruptException) s)"
  by (simp only: Execute_step_def if_True)

lemma Execute_step_at_source:
  "\<not> interrupted s \<Longrightarrow> Execute_step K P input result initial_idx initial_idx s =
     Exit (Return (Inr NEED_MORE_INPUT)
       (set_chunk (current_ref s result initial_idx) (Reset (get_chunk s (current_ref s result initial_idx))) s))"
  unfolding Execute_step_def Let_def by (simp only: if_False if_True refl)

lemma Execute_step_bad_index:
  assumes "\<not> interrupted s" "idx \<noteq> initial_idx"
    "idx = 0 \<or> idx - 1 \<ge> length (operators P) \<or> idx - 1 \<ge> length (intermediate_states s)"
  shows "Execute_step K P input result initial_idx idx s =
     Exit (Return (Inl UndefinedBehaviour)
       (set_chunk (current_ref s result idx) (Reset (get_chunk s (current_ref s result idx))) s))"
proof -
  have g1: "idx = 0 \<or> idx - 1 \<ge> length (operators P) \<or> idx - 1 \<ge> length (intermediate_states (set_chunk (current_ref s result idx) (Reset (get_chunk s (current_ref s result idx))) s))"
    using assms(3) by simp
  show ?thesis
    unfolding Execute_step_def Let_def by (simp only: assms(1,2) g1 if_False if_True)
qed


lemma Execute_step_cases [consumes 1, case_names interrupted at_source bad_index finished bad_finished pop_failed no_rows last_rows more_rows]:
  assumes "Execute_step K P input result initial_idx idx s = out"
  obtains
    "interrupted s" "out = Exit (Return (Inl InterruptException) s)"
  | "\<not> interrupted s" "idx = initial_idx"
    "out = Exit (Return (Inr NEED_MORE_INPUT)
       (set_chunk (current_ref s result idx) (Reset (get_chunk s (current_ref s result idx))) s))"
  | "\<not> interrupted s" "idx \<noteq> initial_idx"
    "idx = 0 \<or> idx - 1 \<ge> length (operators P) \<or> idx - 1 \<ge> length (intermediate_states s)"
    "out = Exit (Return (Inl UndefinedBehaviour)
       (set_chunk (current_ref s result idx) (Reset (get_chunk s (current_ref s result idx))) s))"
  | s3 where "\<not> interrupted s" "idx \<noteq> initial_idx" "0 < idx" "idx \<le> length (operators P)"
    "idx \<le> length (intermediate_states s)"
    "call_operator P (prev_ref input initial_idx idx) (current_ref s result idx) idx
       (set_chunk (current_ref s result idx) (Reset (get_chunk s (current_ref s result idx))) s) = (FINISHED, s3)"
    "DEBUG K \<longrightarrow> size_chunk (get_chunk s3 (current_ref s result idx)) = 0"
    "out = Exit (Return (Inr FINISHED) s3)"
  | s3 where "\<not> interrupted s" "idx \<noteq> initial_idx" "0 < idx" "idx \<le> length (operators P)"
    "idx \<le> length (intermediate_states s)"
    "call_operator P (prev_ref input initial_idx idx) (current_ref s result idx) idx
       (set_chunk (current_ref s result idx) (Reset (get_chunk s (current_ref s result idx))) s) = (FINISHED, s3)"
    "DEBUG K" "size_chunk (get_chunk s3 (current_ref s result idx)) \<noteq> 0"
    "out = Exit (Return (Inl AssertionFailure) s3)"
  | r s3 s4 e s5 where "\<not> interrupted s" "idx \<noteq> initial_idx" "0 < idx" "idx \<le> length (operators P)"
    "idx \<le> length (intermediate_states s)"
    "call_operator P (prev_ref input initial_idx idx) (current_ref s result idx) idx
       (set_chunk (current_ref s result idx) (Reset (get_chunk s (current_ref s result idx))) s) = (r, s3)"
    "r \<noteq> FINISHED"
    "s4 = CacheChunk K P (prev_ref input initial_idx idx) (current_ref s result idx) (idx - 1) s3"
    "size_chunk (get_chunk s4 (current_ref s result idx)) = 0"
    "GoToSource K initial_idx s4 = (Inl e, s5)"
    "out = Exit (Return (Inl e) s5)"
  | r s3 s4 idx' s5 where "\<not> interrupted s" "idx \<noteq> initial_idx" "0 < idx" "idx \<le> length (operators P)"
    "idx \<le> length (intermediate_states s)"
    "call_operator P (prev_ref input initial_idx idx) (current_ref s result idx) idx
       (set_chunk (current_ref s result idx) (Reset (get_chunk s (current_ref s result idx))) s) = (r, s3)"
    "r \<noteq> FINISHED"
    "s4 = CacheChunk K P (prev_ref input initial_idx idx) (current_ref s result idx) (idx - 1) s3"
    "size_chunk (get_chunk s4 (current_ref s result idx)) = 0"
    "GoToSource K initial_idx s4 = (Inr idx', s5)"
    "out = Continue idx' s5"
  | r s3 s4 where "\<not> interrupted s" "idx \<noteq> initial_idx" "0 < idx" "idx = length (operators P)"
    "idx \<le> length (intermediate_states s)"
    "call_operator P (prev_ref input initial_idx idx) (current_ref s result idx) idx
       (set_chunk (current_ref s result idx) (Reset (get_chunk s (current_ref s result idx))) s) = (r, s3)"
    "r \<noteq> FINISHED"
    "s4 = CacheChunk K P (prev_ref input initial_idx idx) (current_ref s result idx) (idx - 1) s3"
    "size_chunk (get_chunk s4 (current_ref s result idx)) \<noteq> 0"
    "out = Exit (Break s4)"
  | r s3 s4 where "\<not> interrupted s" "idx \<noteq> initial_idx" "0 < idx" "idx < length (operators P)"
    "idx \<le> length (intermediate_states s)"
    "call_operator P (prev_ref input initial_idx idx) (current_ref s result idx) idx
       (set_chunk (current_ref s result idx) (Reset (get_chunk s (current_ref s result idx))) s) = (r, s3)"
    "r \<noteq> FINISHED"
    "s4 = CacheChunk K P (prev_ref input initial_idx idx) (current_ref s result idx) (idx - 1) s3"
    "size_chunk (get_chunk s4 (current_ref s result idx)) \<noteq> 0"
    "out = Continue (idx + 1) s4"
proof -
  let ?cur = "current_ref s result idx"
  let ?s1 = "set_chunk ?cur (Reset (get_chunk s ?cur)) s"
  let ?prev = "prev_ref input initial_idx idx"
  consider (a) "interrupted s" | (b) "\<not> interrupted s" "idx = initial_idx"
    | (c) "\<not> interrupted s" "idx \<noteq> initial_idx"
          "idx = 0 \<or> idx - 1 \<ge> length (operators P) \<or> idx - 1 \<ge> length (intermediate_states s)"
    | (d) "\<not> interrupted s" "idx \<noteq> initial_idx" "0 < idx" "idx \<le> length (operators P)"
          "idx \<le> length (intermediate_states s)"
    by force
  then show ?thesis
  proof cases
    case a
    then show ?thesis using assms that(1) by (simp add: Execute_step_interrupted)
  next
    case b
    then show ?thesis using assms that(2) by (simp add: Execute_step_at_source)
  next
    case c
    then show ?thesis using assms that(3) Execute_step_bad_index [OF c, of K input result] by simp
  next
    case d
    obtain r s3 where call: "call_operator P ?prev ?cur idx ?s1 = (r, s3)"
      by (cases "call_operator P ?prev ?cur idx ?s1")
    define s4 where "s4 = CacheChunk K P ?prev ?cur (idx - 1) s3"
    obtain g s5 where go: "GoToSource K initial_idx s4 = (g, s5)"
      by (cases "GoToSource K initial_idx s4")
    note out = Execute_step_main [OF d call s4_def go, unfolded assms]
    show ?thesis
    proof (cases "r = FINISHED")
      case True
      show ?thesis
      proof (cases "DEBUG K \<and> \<not> size_chunk (get_chunk s3 ?cur) = 0")
        case z: False
        then have z': "DEBUG K \<longrightarrow> size_chunk (get_chunk s3 ?cur) = 0" by simp
        show ?thesis using that(4) [OF d call [unfolded True] z'] out True z by simp
      next
        case z: True
        then have z': "DEBUG K" "size_chunk (get_chunk s3 ?cur) \<noteq> 0" by simp_all
        show ?thesis using that(5) [OF d call [unfolded True] z'] out True z by simp
      qed
    next
      case nf: False
      show ?thesis
      proof (cases "size_chunk (get_chunk s4 ?cur) = 0")
        case z: True
        show ?thesis
        proof (cases g)
          case (Inl e)
          show ?thesis using that(6) [OF d call nf s4_def z go [unfolded Inl]] out nf z Inl by simp
        next
          case (Inr idx')
          show ?thesis using that(7) [OF d call nf s4_def z go [unfolded Inr]] out nf z Inr by simp
        qed
      next
        case z: False
        show ?thesis
        proof (cases "idx + 1 > length (operators P)")
          case True
          then have e: "idx = length (operators P)" using d(4) by simp
          show ?thesis using that(8) [OF d(1,2,3) e d(5) call nf s4_def z] out nf z True by simp
        next
          case False
          then have e: "idx < length (operators P)" by simp
          show ?thesis using that(9) [OF d(1,2,3) e d(5) call nf s4_def z] out nf z False by simp
        qed
      qed
    qed
  qed
qed

lemma call_operator_cases:
  assumes "call_operator P prev cur idx s = (r, s3)"
  obtains out st where
    "OperatorExecute (operators P ! (idx - 1)) (chunk_rows (get_chunk s prev)) (intermediate_states s ! (idx - 1)) = (r, out, st)"
    "s3 = (set_chunk cur ((get_chunk s cur)\<lparr>chunk_rows := out\<rparr>) s)
            \<lparr>intermediate_states := (intermediate_states s)[idx - 1 := st],
             calls := calls s @ [OperatorCall (idx - 1) (chunk_rows (get_chunk s prev)) r out],
             in_process_operators := (if r = HAVE_MORE_OUTPUT then idx # in_process_operators s else in_process_operators s)\<rparr>"
proof -
  obtain r' out st where oe: "OperatorExecute (operators P ! (idx - 1)) (chunk_rows (get_chunk s prev)) (intermediate_states s ! (idx - 1)) = (r', out, st)"
    by (cases "OperatorExecute (operators P ! (idx - 1)) (chunk_rows (get_chunk s prev)) (intermediate_states s ! (idx - 1))")
  show ?thesis
    using assms oe that [of out st]
    by (auto simp: call_operator_def Let_def)
qed


lemma GoToSource_fields [simp]:
  "calls (snd (GoToSource K i s)) = calls s"
  "cached_chunks (snd (GoToSource K i s)) = cached_chunks s"
  "intermediate_chunks (snd (GoToSource K i s)) = intermediate_chunks s"
  "intermediate_states (snd (GoToSource K i s)) = intermediate_states s"
  "final_chunk (snd (GoToSource K i s)) = final_chunk s"
  "caller_chunk (snd (GoToSource K i s)) = caller_chunk s"
  "interrupted (snd (GoToSource K i s)) = interrupted s"
  "finalized (snd (GoToSource K i s)) = finalized s"
  "finished_processing (snd (GoToSource K i s)) = finished_processing s"
  "local_sink_state (snd (GoToSource K i s)) = local_sink_state s"
  "sink_state (snd (GoToSource K i s)) = sink_state s"
  by (simp_all add: GoToSource_def split: list.splits)

lemma get_chunk_GoToSource [simp]:
  "get_chunk (snd (GoToSource K i s)) r = get_chunk s r"
  by (cases r) (simp_all add: GoToSource_def split: list.splits)

subsection \<open>Invariants of the Execute loop\<close>

lemma Execute_loop_invariant:
  assumes run: "Execute_loop K P inp res i idx s = Some out"
    and init: "I idx s"
    and step: "\<And>idx s idx' s'. I idx s \<Longrightarrow> Execute_step K P inp res i idx s = Continue idx' s' \<Longrightarrow> I idx' s'"
  shows "\<exists>idx0 s0. I idx0 s0 \<and> Execute_step K P inp res i idx0 s0 = Exit out"
proof -
  let ?Q = "\<lambda>((((((K', P'), inp'), res'), i'), idx), s) out.
              (K' = K \<and> P' = P \<and> inp' = inp \<and> res' = res \<and> i' = i) \<longrightarrow> I idx s \<longrightarrow>
              (\<exists>idx0 s0. I idx0 s0 \<and> Execute_step K P inp res i idx0 s0 = Exit out)"
  have "?Q ((((((K, P), inp), res), i), idx), s) out"
  proof (rule Execute_loop.raw_induct [OF _ run], goal_cases)
    case (1 loop K' P' inp' res' i' idx s out)
    show ?case
      unfolding prod.case
    proof (intro impI)
      assume eq: "K' = K \<and> P' = P \<and> inp' = inp \<and> res' = res \<and> i' = i" and I: "I idx s"
      have body: "(case Execute_step K P inp res i idx s of
                     Continue idx s' \<Rightarrow> loop K P inp res i idx s' | Exit e \<Rightarrow> Some e) = Some out"
        using 1(2) eq by (auto split: loop_step.splits)
      show "\<exists>idx0 s0. I idx0 s0 \<and> Execute_step K P inp res i idx0 s0 = Exit out"
      proof (cases "Execute_step K P inp res i idx s")
        case (Continue idx' s')
        have "I idx' s'" using step [OF I Continue] .
        moreover have "loop K P inp res i idx' s' = Some out"
          using body Continue by simp
        ultimately show ?thesis using 1(1) by fastforce
      next
        case (Exit e)
        then show ?thesis using body I by auto
      qed
    qed
  qed
  with init show ?thesis by simp
qed

lemma get_chunk_call_operator_cur:
  assumes "call_operator P prev cur idx s = (r, s3)" "valid_ref s cur"
  shows "\<exists>j p out. calls s3 = calls s @ [OperatorCall j p r out] \<and> chunk_rows (get_chunk s3 cur) = out"
  using assms(1)
proof (cases rule: call_operator_cases)
  case (1 out st)
  then show ?thesis using assms(2) by (simp add: get_set_chunk_same)
qed

lemma calls_call_operator:
  assumes "call_operator P prev cur idx s = (r, s3)"
  shows "\<exists>j p out. calls s3 = calls s @ [OperatorCall j p r out]"
  using assms
  by (cases rule: call_operator_cases) simp

lemma valid_ref_current_ref:
  "valid_ref s result \<Longrightarrow> valid_ref s (current_ref s result idx)"
  by (simp add: current_ref_def valid_ref_def)

text \<open>What one round adds to the list of calls.\<close>

lemma Execute_step_calls:
  assumes "Execute_step K P input result initial_idx idx s = out" "valid_ref s result"
  shows "case out of
           Continue idx' s' \<Rightarrow> (\<exists>new. calls s' = calls s @ new \<and> (\<forall>c \<in> set new. \<not> is_finished_call c))
         | Exit (Break s') \<Rightarrow> (\<exists>new. calls s' = calls s @ new \<and> (\<forall>c \<in> set new. \<not> is_finished_call c))
         | Exit (Return r s') \<Rightarrow>
             (\<exists>j p rows. calls s' = calls s @ [OperatorCall j p FINISHED rows]
                \<and> r = (if DEBUG K \<and> rows \<noteq> [] then Inl AssertionFailure else Inr FINISHED))
             \<or> (r \<noteq> Inr FINISHED
                \<and> (\<exists>new. calls s' = calls s @ new \<and> (\<forall>c \<in> set new. \<not> is_finished_call c)))"
  using assms(1)
proof (cases rule: Execute_step_cases)
  case (finished s3)
  from get_chunk_call_operator_cur [OF finished(6)] assms(2)
  obtain j p rows where c: "calls s3 = calls s @ [OperatorCall j p FINISHED rows]"
    "chunk_rows (get_chunk s3 (current_ref s result idx)) = rows"
    by (auto simp: valid_ref_current_ref)
  then have "DEBUG K \<longrightarrow> rows = []" using finished(7) by (simp add: size_chunk_def)
  then show ?thesis using finished(8) c(1) by auto
next
  case (bad_finished s3)
  from get_chunk_call_operator_cur [OF bad_finished(6)] assms(2)
  obtain j p rows where c: "calls s3 = calls s @ [OperatorCall j p FINISHED rows]"
    "chunk_rows (get_chunk s3 (current_ref s result idx)) = rows"
    by (auto simp: valid_ref_current_ref)
  then have "rows \<noteq> []" using bad_finished(8) by (auto simp: size_chunk_def)
  then show ?thesis using bad_finished(7,9) c(1) by auto
next
  case (pop_failed r s3 s4 e s5)
  from calls_call_operator [OF pop_failed(6)] obtain j p rows where "calls s3 = calls s @ [OperatorCall j p r rows]"
    by auto
  moreover have "calls s5 = calls s4" using pop_failed(10) GoToSource_fields(1) [of K initial_idx s4] by simp
  ultimately show ?thesis using pop_failed by auto
next
  case (no_rows r s3 s4 idx' s5)
  from calls_call_operator [OF no_rows(6)] obtain j p rows where "calls s3 = calls s @ [OperatorCall j p r rows]"
    by auto
  moreover have "calls s5 = calls s4" using no_rows(10) GoToSource_fields(1) [of K initial_idx s4] by simp
  ultimately show ?thesis using no_rows by auto
next
  case (last_rows r s3 s4)
  from calls_call_operator [OF last_rows(6)] obtain j p rows where "calls s3 = calls s @ [OperatorCall j p r rows]"
    by auto
  then show ?thesis using last_rows by auto
next
  case (more_rows r s3 s4)
  from calls_call_operator [OF more_rows(6)] obtain j p rows where "calls s3 = calls s @ [OperatorCall j p r rows]"
    by auto
  then show ?thesis using more_rows by auto
qed (auto)


lemma valid_ref_fill_slot:
  "valid_ref s (Cached j) \<Longrightarrow>
   valid_ref (s\<lparr>cached_chunks := (cached_chunks s)[j := Some c]\<rparr>) r = valid_ref s r"
  by (cases r) (auto simp: valid_ref_def nth_list_update)

lemma valid_ref_CacheChunk [simp]:
  "valid_ref (CacheChunk K P prev cur j s) r = valid_ref s r"
proof (cases "j < length (cached_chunks s) \<and> cached_chunks s ! j \<noteq> None")
  case False
  then show ?thesis by (auto simp: CacheChunk_def)
next
  case True
  then have v: "valid_ref s (Cached j)" by (simp add: valid_ref_def)
  then have v1: "valid_ref (set_chunk cur c s) (Cached j)" for c by simp
  show ?thesis
    using True
    by (cases "cached_chunks s ! j")
       (simp_all add: CacheChunk_def Let_def valid_ref_fill_slot [OF v] valid_ref_fill_slot [OF v1])
qed

lemma valid_ref_GoToSource [simp]:
  "valid_ref (snd (GoToSource K i s)) r = valid_ref s r"
  by (cases r) (auto simp: valid_ref_def)

lemma valid_ref_call_operator:
  assumes "call_operator P prev cur idx s = (r, s3)"
  shows "valid_ref s3 x = valid_ref s x"
  using assms
proof (cases rule: call_operator_cases)
  case (1 out st)
  have "valid_ref s3 x = valid_ref (set_chunk cur ((get_chunk s cur)\<lparr>chunk_rows := out\<rparr>) s) x"
    unfolding 1(2) by (cases x) (simp_all add: valid_ref_def)
  then show ?thesis by simp
qed

lemma Execute_step_valid_ref:
  assumes "Execute_step K P input result initial_idx idx s = Continue idx' s'"
  shows "valid_ref s' x = valid_ref s x"
  using assms
proof (cases rule: Execute_step_cases)
  case (no_rows r s3 s4 idx'' s5)
  have "s5 = snd (GoToSource K initial_idx s4)" using no_rows(10) by simp
  then show ?thesis using no_rows valid_ref_call_operator [OF no_rows(6)] by simp
next
  case (more_rows r s3 s4)
  then show ?thesis using valid_ref_call_operator [OF more_rows(6)] by simp
qed auto

lemma no_finished_since_step:
  assumes "no_finished_since c0 s" "calls s' = calls s @ new" "\<forall>c \<in> set new. \<not> is_finished_call c"
  shows "no_finished_since c0 s'"
  using assms by (auto simp: no_finished_since_def)

lemma Execute_loop_calls:
  assumes run: "Execute_loop K P input result initial_idx idx s = Some out"
    and v: "valid_ref s result"
  shows "case out of
           Break s' \<Rightarrow> (\<exists>new. calls s' = calls s @ new \<and> (\<forall>c \<in> set new. \<not> is_finished_call c))
         | Return r s' \<Rightarrow>
             (\<exists>new j p rows. calls s' = calls s @ new @ [OperatorCall j p FINISHED rows]
                \<and> (\<forall>c \<in> set new. \<not> is_finished_call c)
                \<and> r = (if DEBUG K \<and> rows \<noteq> [] then Inl AssertionFailure else Inr FINISHED))
             \<or> (r \<noteq> Inr FINISHED
                \<and> (\<exists>new. calls s' = calls s @ new \<and> (\<forall>c \<in> set new. \<not> is_finished_call c)))"
proof -
  let ?I = "\<lambda>(idx :: nat) s'. valid_ref s' result \<and> no_finished_since (calls s) s'"
  have "\<exists>idx0 s0. ?I idx0 s0 \<and> Execute_step K P input result initial_idx idx0 s0 = Exit out"
  proof (rule Execute_loop_invariant [OF run])
    show "?I idx s" using v by (simp add: no_finished_since_def)
  next
    fix idx1 s1 idx' s'
    assume I: "?I idx1 s1" and st: "Execute_step K P input result initial_idx idx1 s1 = Continue idx' s'"
    from Execute_step_calls [OF st] I
    obtain new where "calls s' = calls s1 @ new" "\<forall>c \<in> set new. \<not> is_finished_call c" by auto
    with I Execute_step_valid_ref [OF st] show "?I idx' s'"
      by (auto intro: no_finished_since_step)
  qed
  then obtain idx0 s0 where I: "?I idx0 s0"
    and st: "Execute_step K P input result initial_idx idx0 s0 = Exit out" by blast
  from I obtain new0 where n0: "calls s0 = calls s @ new0" "\<forall>c \<in> set new0. \<not> is_finished_call c"
    and v0: "valid_ref s0 result"
    by (auto simp: no_finished_since_def)
  note sc = Execute_step_calls [OF st v0]
  show ?thesis
  proof (cases out)
    case (Break s')
    with sc n0 show ?thesis by auto
  next
    case (Return r s')
    with sc have "(\<exists>j p rows. calls s' = calls s0 @ [OperatorCall j p FINISHED rows]
                \<and> r = (if DEBUG K \<and> rows \<noteq> [] then Inl AssertionFailure else Inr FINISHED))
             \<or> (r \<noteq> Inr FINISHED
                \<and> (\<exists>new. calls s' = calls s0 @ new \<and> (\<forall>c \<in> set new. \<not> is_finished_call c)))"
      by simp
    then show ?thesis
    proof
      assume "\<exists>j p rows. calls s' = calls s0 @ [OperatorCall j p FINISHED rows]
                \<and> r = (if DEBUG K \<and> rows \<noteq> [] then Inl AssertionFailure else Inr FINISHED)"
      then obtain j p rows where "calls s' = calls s @ new0 @ [OperatorCall j p FINISHED rows]"
        "r = (if DEBUG K \<and> rows \<noteq> [] then Inl AssertionFailure else Inr FINISHED)"
        using n0(1) by auto
      then show ?thesis using Return n0(2) by auto
    next
      assume "r \<noteq> Inr FINISHED
                \<and> (\<exists>new. calls s' = calls s0 @ new \<and> (\<forall>c \<in> set new. \<not> is_finished_call c))"
      then obtain new where "r \<noteq> Inr FINISHED" "calls s' = calls s @ (new0 @ new)"
        "\<forall>c \<in> set (new0 @ new). \<not> is_finished_call c"
        using n0 by auto
      then show ?thesis using Return by (auto intro!: exI [of _ "new0 @ new"])
    qed
  qed
qed


lemma Execute_body_calls:
  assumes run: "Execute_body K P input result initial_idx s = Some out"
    and v: "valid_ref s result"
  shows "case out of
           Break s' \<Rightarrow> (\<exists>new. calls s' = calls s @ new \<and> (\<forall>c \<in> set new. \<not> is_finished_call c))
         | Return r s' \<Rightarrow>
             (\<exists>new j p rows. calls s' = calls s @ new @ [OperatorCall j p FINISHED rows]
                \<and> (\<forall>c \<in> set new. \<not> is_finished_call c)
                \<and> r = (if DEBUG K \<and> rows \<noteq> [] then Inl AssertionFailure else Inr FINISHED))
             \<or> (r \<noteq> Inr FINISHED
                \<and> (\<exists>new. calls s' = calls s @ new \<and> (\<forall>c \<in> set new. \<not> is_finished_call c)))"
proof (cases "size_chunk (get_chunk s input) = 0 \<or> (DEBUG K \<and> operators P = [])")
  case True
  then show ?thesis using run by (auto simp: Execute_body_def split: if_splits)
next
  case False
  obtain g s1 where go: "GoToSource K initial_idx s = (g, s1)" by (cases "GoToSource K initial_idx s")
  then have s1: "s1 = snd (GoToSource K initial_idx s)" by simp
  show ?thesis
  proof (cases g)
    case (Inl e)
    then have "out = Return (Inl e) s1" using run False go by (auto simp: Execute_body_def)
    then show ?thesis by (simp add: s1)
  next
    case (Inr idx)
    show ?thesis
    proof (cases "(if idx = initial_idx then idx + 1 else idx) > length (operators P)")
      case True
      then have "out = Return (Inr NEED_MORE_INPUT) (set_chunk result (get_chunk s1 input) s1)"
        using run False go Inr by (auto simp: Execute_body_def Let_def)
      then show ?thesis by (simp add: s1)
    next
      case nb: False
      then have loop: "Execute_loop K P input result initial_idx (if idx = initial_idx then idx + 1 else idx) s1 = Some out"
        using run False go Inr by (auto simp: Execute_body_def Let_def)
      have v1: "valid_ref s1 result" and c1: "calls s1 = calls s" using v s1 by simp_all
      show ?thesis using Execute_loop_calls [OF loop v1] unfolding c1 .
    qed
  qed
qed


text \<open>The positions on the stack stay behind \<open>initial_idx\<close> and within the operator list.\<close>

lemma Execute_step_stack:
  assumes st: "Execute_step K P inp res i idx s = out"
    and b: "list_all (\<lambda>c. i < c \<and> c \<le> length (operators P)) (in_process_operators s)"
    and pos: "i < idx \<or> (idx = i \<and> in_process_operators s = [])"
  shows "case out of
           Continue idx' s' \<Rightarrow>
             list_all (\<lambda>c. i < c \<and> c \<le> length (operators P)) (in_process_operators s')
             \<and> (i < idx' \<or> (idx' = i \<and> in_process_operators s' = []))
         | Exit (Break s') \<Rightarrow> True
         | Exit (Return r s') \<Rightarrow> r = Inr NEED_MORE_INPUT \<longrightarrow> in_process_operators s' = []"
  using st
proof (cases rule: Execute_step_cases)
  case at_source
  then show ?thesis using pos by simp
next
  case (no_rows r s3 s4 idx' s5)
  from no_rows(6) have s3: "in_process_operators s3
      = (if r = HAVE_MORE_OUTPUT then idx # in_process_operators s else in_process_operators s)"
    by (cases rule: call_operator_cases) simp
  have b4: "list_all (\<lambda>c. i < c \<and> c \<le> length (operators P)) (in_process_operators s4)"
    using b s3 no_rows(2,4,8) pos by simp
  from no_rows(10) show ?thesis
  proof (cases rule: GoToSource_cases)
    case empty
    then show ?thesis using no_rows(11) by simp
  next
    case (pop c rest)
    then show ?thesis using no_rows(11) b4 by (auto split: if_splits)
  qed
next
  case (more_rows r s3 s4)
  from more_rows(6) have s3: "in_process_operators s3
      = (if r = HAVE_MORE_OUTPUT then idx # in_process_operators s else in_process_operators s)"
    by (cases rule: call_operator_cases) simp
  then show ?thesis using b more_rows(2,4,8,10) pos by simp
qed simp_all

lemma Execute_loop_stack:
  assumes run: "Execute_loop K P inp res i idx s = Some out"
    and b: "list_all (\<lambda>c. i < c \<and> c \<le> length (operators P)) (in_process_operators s)"
    and pos: "i < idx \<or> (idx = i \<and> in_process_operators s = [])"
  shows "case out of Break s' \<Rightarrow> True
         | Return r s' \<Rightarrow> r = Inr NEED_MORE_INPUT \<longrightarrow> in_process_operators s' = []"
proof -
  let ?I = "\<lambda>idx s. list_all (\<lambda>c. i < c \<and> c \<le> length (operators P)) (in_process_operators s)
                     \<and> (i < idx \<or> (idx = i \<and> in_process_operators s = []))"
  have "\<exists>idx0 s0. ?I idx0 s0 \<and> Execute_step K P inp res i idx0 s0 = Exit out"
  proof (rule Execute_loop_invariant [OF run])
    show "?I idx s" using b pos by simp
  next
    fix idx1 s1 idx' s'
    assume I: "?I idx1 s1" and st: "Execute_step K P inp res i idx1 s1 = Continue idx' s'"
    from Execute_step_stack [OF st] I show "?I idx' s'" by simp
  qed
  then obtain idx0 s0 where I: "?I idx0 s0"
    and st: "Execute_step K P inp res i idx0 s0 = Exit out" by blast
  from Execute_step_stack [OF st] I show ?thesis by (cases out) simp_all
qed

lemma Execute_stack:
  assumes ex: "Execute K P inp res i s = Some (Inr NEED_MORE_INPUT, s')"
    and ne: "size_chunk (get_chunk s inp) \<noteq> 0"
    and b: "list_all (\<lambda>c. i < c \<and> c \<le> length (operators P)) (in_process_operators s)"
  shows "in_process_operators s' = []"
proof -
  from ex obtain out where body: "Execute_body K P inp res i s = Some out"
    by (auto simp: Execute_def split: option.splits)
  show ?thesis
  proof (cases out)
    case (Break s'')
    then show ?thesis using ex body by (auto simp: Execute_def split: if_splits)
  next
    case (Return r s'')
    then have out: "out = Return (Inr NEED_MORE_INPUT) s'" using ex body by (auto simp: Execute_def)
    have nd: "\<not> (DEBUG K \<and> operators P = [])" using body out ne by (auto simp: Execute_body_def)
    obtain g s1 where go: "GoToSource K i s = (g, s1)" by (cases "GoToSource K i s")
    from go show ?thesis
    proof (cases rule: GoToSource_cases)
      case empty
      show ?thesis
      proof (cases "i + 1 > length (operators P)")
        case True
        then show ?thesis using body out ne nd go empty by (auto simp: Execute_body_def Let_def)
      next
        case False
        then have loop: "Execute_loop K P inp res i (i + 1) s = Some out"
          using body ne nd go empty by (auto simp: Execute_body_def Let_def)
        from Execute_loop_stack [OF loop b] out show ?thesis by simp
      qed
    next
      case (pop c rest)
      then have c: "i < c" "c \<le> length (operators P)"
        and b1: "list_all (\<lambda>c. i < c \<and> c \<le> length (operators P)) (in_process_operators s1)"
        using b by simp_all
      then have g: "g = Inr c" using pop by simp
      have loop: "Execute_loop K P inp res i c s1 = Some out"
        using body ne nd go g c by (auto simp: Execute_body_def Let_def)
      from Execute_loop_stack [OF loop b1] c out show ?thesis by simp
    qed
  qed
qed


subsection \<open>Runs of the concrete pipelines\<close>

lemma halving_executor_eq:
  "halving_executor =
     \<lparr>local_source_state = 4, local_sink_state = Some 0,
      intermediate_chunks = [\<lparr>chunk_types = [LogicalType INTEGER []], chunk_rows = []\<rparr>],
      intermediate_states = [0], cached_chunks = [None], in_process_operators = [],
      final_chunk = \<lparr>chunk_types = [LogicalType INTEGER []], chunk_rows = []\<rparr>,
      finished_processing = False, finalized = False, source_state = 4,
      sink_state = 0, interrupted = False, caller_chunk = four_rows, calls = []\<rparr>"
  by code_simp

lemma Execute_halving_first:
  "Execute K128 halving_pipeline Caller Final 0 halving_executor = Some (Inr HAVE_MORE_OUTPUT, halving_after_first)"
  by code_simp

lemma Execute_body_halving_first:
  "Execute_body K128 halving_pipeline Caller Final 0 halving_executor = Some (Break halving_after_first)"
  by code_simp


lemma early_finish_executor_eq: "early_finish_executor = early_finish_start"
  by code_simp

lemma early_finish_push_first:
  "ExecutePush K128 early_finish_pipeline first_chunk early_finish_start = Some (Inr NEED_MORE_INPUT, early_finish_cached)"
  by code_simp

lemma early_finish_push_second:
  "ExecutePush K128 early_finish_pipeline second_chunk early_finish_cached = Some (Inr FINISHED, early_finish_pushed)"
  by code_simp

lemma early_finish_finalize_pushed:
  "PushFinalize K128 early_finish_pipeline early_finish_pushed = Some (Inr (), early_finish_flushed)"
  by code_simp



lemma early_finish_pipeline_run:
  "Execute_pipeline K128 early_finish_pipeline early_finish_start = Some (Inr (), early_finish_end)"
  by code_simp


lemma early_finish_finalize_twice:
  "PushFinalize K128 early_finish_pipeline early_finish_cached_flushed = Some (Inl InternalException, early_finish_cached_flushed)"
  by code_simp


lemma finishing_executor_eq:
  "finishing_executor =
     \<lparr>local_source_state = 4, local_sink_state = Some 0,
      intermediate_chunks =
        [\<lparr>chunk_types = [LogicalType INTEGER []], chunk_rows = []\<rparr>,
         \<lparr>chunk_types = [LogicalType INTEGER []], chunk_rows = []\<rparr>],
      intermediate_states = [0, 0], cached_chunks = [None, None], in_process_operators = [],
      final_chunk = \<lparr>chunk_types = [LogicalType INTEGER []], chunk_rows = []\<rparr>,
      finished_processing = False, finalized = False, source_state = 4,
      sink_state = 0, interrupted = False, caller_chunk = four_rows, calls = []\<rparr>"
  by code_simp

lemma eager_executor_eq:
  "eager_executor =
     \<lparr>local_source_state = 4, local_sink_state = Some 0,
      intermediate_chunks = [\<lparr>chunk_types = [LogicalType INTEGER []], chunk_rows = []\<rparr>],
      intermediate_states = [0], cached_chunks = [None], in_process_operators = [],
      final_chunk = \<lparr>chunk_types = [LogicalType INTEGER []], chunk_rows = []\<rparr>,
      finished_processing = False, finalized = False, source_state = 4,
      sink_state = 0, interrupted = False, caller_chunk = four_rows, calls = []\<rparr>"
  by code_simp

lemma Execute_finishing:
  "Execute K128 finishing_pipeline Caller Final 0 finishing_executor = Some (Inr FINISHED, finishing_finished)"
  by code_simp

lemma Execute_eager_debug:
  "Execute K128 eager_pipeline Caller Final 0 eager_executor = Some (Inl AssertionFailure, eager_finished)"
  by code_simp

lemma Execute_eager_release:
  "Execute K128_release eager_pipeline Caller Final 0 eager_executor = Some (Inr FINISHED, eager_finished)"
  by code_simp






lemma halving_finish_executor_eq:
  "halving_finish_executor =
     \<lparr>local_source_state = 4, local_sink_state = Some 0,
      intermediate_chunks = [\<lparr>chunk_types = [LogicalType INTEGER []], chunk_rows = []\<rparr>],
      intermediate_states = [0], cached_chunks = [None], in_process_operators = [],
      final_chunk = \<lparr>chunk_types = [LogicalType INTEGER []], chunk_rows = []\<rparr>,
      finished_processing = False, finalized = False, source_state = 4,
      sink_state = 0, interrupted = False, caller_chunk = four_rows, calls = []\<rparr>"
  by code_simp



lemma staged_push_first:
  "ExecutePush K128_release staged_pipeline first_chunk staged_executor
     = Some (Inr NEED_MORE_INPUT, staged_first)"
  by code_simp

lemma staged_push_second:
  "ExecutePush K128_release staged_pipeline three_even staged_first
     = Some (Inr NEED_MORE_INPUT, staged_loaded)"
  by code_simp

lemma staged_finalize_release:
  "PushFinalize K128_release staged_pipeline staged_loaded = Some (Inr (), staged_release_end)"
  by code_simp

lemma staged_finalize_debug:
  "map_option fst (PushFinalize K128 staged_pipeline staged_loaded) = Some (Inl AssertionFailure)"
  by code_simp

subsection \<open>What a push leaves alone\<close>

lemma push_frame_refl [simp]: "push_frame K i s s"
  by (simp add: push_frame_def)


lemma is_cached_current_ref [simp]:
  "\<not> is_cached_ref result \<Longrightarrow> \<not> is_cached_ref (current_ref s result idx)"
  by (simp add: current_ref_def is_cached_ref_def Let_def)














subsection \<open>The flush of the caches\<close>

lemma flush_slot_eq:
  "flush_slot K P i s = flush_in_order K P [i] s"
  by (auto simp: flush_slot_def split: option.splits sum.splits prod.splits)








subsection \<open>Resumption of operators\<close>


lemma concat_runs [simp]: "concat (runs cs) = cs"
  by (induction cs) (auto split: list.splits)

lemma runs_Nil_iff [simp]: "runs cs = [] \<longleftrightarrow> cs = []"
  by (cases cs) (auto split: list.splits)



lemma calls_of_append [simp]: "calls_of j (xs @ ys) = calls_of j xs @ calls_of j ys"
  by (simp add: calls_of_def)

lemma calls_of_Nil [simp]: "calls_of j [] = []"
  by (simp add: calls_of_def)

lemma calls_of_operator [simp]:
  "calls_of j [OperatorCall j' p r out] = (if j' = j then [OperatorCall j' p r out] else [])"
  by (simp add: calls_of_def)

lemma calls_of_other [simp]:
  "calls_of j [SinkCall rows sr] = []" "calls_of j [CombineCall] = []"
  by (simp_all add: calls_of_def)





lemma pending_snoc [simp]: "pending (cs @ [c]) = (call_result c = HAVE_MORE_OUTPUT)"
  by (simp add: pending_def)















lemma get_chunk_SinkChunk [simp]: "get_chunk (snd (SinkChunk K P x s)) y = get_chunk s y"
  by (cases y) (auto simp: SinkChunk_def Let_def split: option.splits prod.splits)

lemma in_process_SinkChunk [simp]:
  "in_process_operators (snd (SinkChunk K P x s)) = in_process_operators s"
  by (auto simp: SinkChunk_def Let_def split: option.splits prod.splits)






subsection \<open>A push returns\<close>





lemma length_weights [simp]: "length (weights rounds P inp i cur s) = length (operators P)"
  by (simp add: weights_def)

lemma nth_weights [simp]:
  "k < length (operators P) \<Longrightarrow> weights rounds P inp i cur s ! k = pos_weight rounds inp i cur s (Suc k)"
  by (simp add: weights_def)










lemma executor_ok_set_chunk [simp]: "executor_ok P (set_chunk r c s) = executor_ok P s"
  by (simp add: executor_ok_def)

















text \<open>The constructor establishes what the pushes need.\<close>

lemma constructor_loop_fields:
  "length (intermediate_states (constructor_loop P i s))
      = length (intermediate_states s) + (length (operators P) - i)
   \<and> interrupted (constructor_loop P i s) = interrupted s
   \<and> local_sink_state (constructor_loop P i s) = local_sink_state s
   \<and> in_process_operators (constructor_loop P i s) = in_process_operators s"
proof (induction P i s rule: constructor_loop.induct)
  case (1 P i s)
  let ?R = "\<lambda>j s s'. length (intermediate_states s')
      = length (intermediate_states s) + (length (operators P) - j)
   \<and> interrupted s' = interrupted s
   \<and> local_sink_state s' = local_sink_state s
   \<and> in_process_operators s' = in_process_operators s"
  show ?case
  proof (cases "i < length (operators P)")
    case False
    then have "constructor_loop P i s = s" by (subst constructor_loop.simps) simp
    then show ?thesis using False by simp
  next
    case True
    let ?s1 = "s\<lparr>intermediate_chunks := intermediate_chunks s @
                     [Initialize (if i = 0 then SourceTypes (source P) else GetTypes (operators P ! (i - 1)))],
                   intermediate_states := intermediate_states s @ [GetOperatorState (operators P ! i)]\<rparr>"
    let ?s2 = "?s1\<lparr>cached_chunks := (cached_chunks ?s1)[i := Some (Initialize (GetTypes (operators P ! i)))]\<rparr>"
    let ?c = "(case sink P of None \<Rightarrow> False | Some snk \<Rightarrow> \<not> SinkOrderMatters snk)
              \<and> RequiresCache (operators P ! i)"
    consider (skip) "?c" "\<not> can_cache_types (GetTypes (operators P ! i))"
      | (alloc) "?c" "can_cache_types (GetTypes (operators P ! i))"
      | (plain) "\<not> ?c"
      by blast
    then show ?thesis
    proof cases
      case skip
      have eq: "constructor_loop P i s = constructor_loop P (i + 1) ?s1"
        using True skip by (subst constructor_loop.simps) (simp add: Let_def)
      have "?R (i + 1) ?s1 (constructor_loop P (i + 1) ?s1)"
        using "1.IH"(1) [OF True refl refl refl skip(1) skip(2)] .
      then show ?thesis unfolding eq using True by simp
    next
      case alloc
      have eq: "constructor_loop P i s = constructor_loop P (i + 1) ?s2"
        using True alloc by (subst constructor_loop.simps) (simp add: Let_def)
      have "?R (i + 1) ?s2 (constructor_loop P (i + 1) ?s2)"
        using "1.IH"(2) [OF True refl refl refl alloc(1)] alloc(2) by simp
      then show ?thesis unfolding eq using True by simp
    next
      case plain
      have nc: "?c = False" using plain by simp
      have eq: "constructor_loop P i s = constructor_loop P (i + 1) ?s1"
        using True by (subst constructor_loop.simps) (simp only: Let_def nc if_True if_False)
      have "?R (i + 1) ?s1 (constructor_loop P (i + 1) ?s1)"
        using "1.IH"(3) [OF True refl refl refl plain] .
      then show ?thesis unfolding eq using True by simp
    qed
  qed
qed

lemma new_PipelineExecutor_ok:
  assumes "sink P \<noteq> None"
  shows "executor_ok P (new_PipelineExecutor P src_state snk_state False caller)
         \<and> in_process_operators (new_PipelineExecutor P src_state snk_state False caller) = []"
  using assms constructor_loop_fields [of P 0]
  by (auto simp: new_PipelineExecutor_def Let_def executor_ok_def)


subsection \<open>Cache slots\<close>

lemma CanCacheEntries_all: "CanCacheEntries es = (\<forall>e \<in> set es. CanCacheType (snd e))"
  by (induction es) auto

lemma can_cache_types_all: "can_cache_types ts = (\<forall>t \<in> set ts. CanCacheType t)"
  by (induction ts) auto

lemma constructor_loop_cached:
  "length (cached_chunks s) = length (operators P) \<Longrightarrow> j < length (operators P) \<Longrightarrow>
   cached_chunks (constructor_loop P i s) ! j =
     (if i \<le> j \<and> allocates_cache P j then Some (Initialize (GetTypes (operators P ! j)))
      else cached_chunks s ! j)"
proof (induction P i s rule: constructor_loop.induct)
  case (1 P i s)
  show ?case
  proof (cases "i < length (operators P)")
    case False
    with 1(4,5) show ?thesis by (subst constructor_loop.simps) simp
  next
    case True
    let ?s1 = "s\<lparr>intermediate_chunks := intermediate_chunks s @
                     [Initialize (if i = 0 then SourceTypes (source P) else GetTypes (operators P ! (i - 1)))],
                   intermediate_states := intermediate_states s @ [GetOperatorState (operators P ! i)]\<rparr>"
    let ?c = "(case sink P of None \<Rightarrow> False | Some snk \<Rightarrow> \<not> SinkOrderMatters snk)
              \<and> RequiresCache (operators P ! i)"
    let ?R = "\<lambda>s'. cached_chunks (constructor_loop P (i + 1) s') ! j =
                (if i + 1 \<le> j \<and> allocates_cache P j then Some (Initialize (GetTypes (operators P ! j)))
                 else cached_chunks s' ! j)"
    consider (skip) "?c" "\<not> can_cache_types (GetTypes (operators P ! i))"
      | (alloc) "?c" "can_cache_types (GetTypes (operators P ! i))"
      | (plain) "\<not> ?c"
      by blast
    then show ?thesis
    proof cases
      case skip
      have eq: "constructor_loop P i s = constructor_loop P (i + 1) ?s1"
        using True skip by (subst constructor_loop.simps) (simp add: Let_def)
      have "?R ?s1"
        using "1.IH"(1)[OF True refl refl refl skip(1) _ _ "1.prems"(2)] skip(2) "1.prems"(1) by simp
      then show ?thesis
        using skip unfolding eq by (auto simp: allocates_cache_def le_Suc_eq Suc_le_eq)
    next
      case alloc
      let ?s2 = "?s1\<lparr>cached_chunks := (cached_chunks ?s1)[i := Some (Initialize (GetTypes (operators P ! i)))]\<rparr>"
      have eq: "constructor_loop P i s = constructor_loop P (i + 1) ?s2"
        using True alloc by (subst constructor_loop.simps) (simp add: Let_def)
      have "?R ?s2"
        using "1.IH"(2)[OF True refl refl refl alloc(1) _ _ "1.prems"(2)] alloc(2) "1.prems"(1) by simp
      then show ?thesis
        using alloc True "1.prems" unfolding eq
        by (auto simp: allocates_cache_def le_Suc_eq Suc_le_eq nth_list_update)
    next
      case plain
      have nc: "?c = False" using plain by simp
      have eq: "constructor_loop P i s = constructor_loop P (i + 1) ?s1"
        using True by (subst constructor_loop.simps) (simp only: Let_def nc if_True if_False)
      have "?R ?s1"
        using "1.IH"(3)[OF True refl refl refl plain _ "1.prems"(2)] "1.prems"(1) by simp
      then show ?thesis
        using plain unfolding eq by (auto simp: allocates_cache_def le_Suc_eq Suc_le_eq)
    qed
  qed
qed

lemma new_PipelineExecutor_cached:
  assumes "i < length (operators P)"
  shows "cached_chunks (new_PipelineExecutor P a b c d) ! i =
     (if allocates_cache P i then Some (Initialize (GetTypes (operators P ! i))) else None)"
  using assms by (simp add: new_PipelineExecutor_def Let_def constructor_loop_cached)

text \<open>
  Claim C8. The constructor allocates the cache slot of operator \<open>i\<close> exactly when the
  pipeline has a sink, the sink does not need its input in order, the operator asks for a
  cache and every one of its output types can be cached; the slot then is an empty chunk of
  the operator's output types. A type can be cached exactly when it is neither a LIST nor a
  MAP and, if it is a STRUCT, all its child types can be cached.
\<close>

theorem constructor_cache_slots:
  "(i < length (operators P) \<longrightarrow>
      cached_chunks (new_PipelineExecutor P src_state snk_state intr caller) ! i =
        (if (\<exists>snk. sink P = Some snk \<and> \<not> SinkOrderMatters snk)
            \<and> RequiresCache (operators P ! i)
            \<and> (\<forall>t \<in> set (GetTypes (operators P ! i)). CanCacheType t)
         then Some (Initialize (GetTypes (operators P ! i))) else None))
   \<and> CanCacheType t =
       (type_id t \<noteq> LIST \<and> type_id t \<noteq> MAP
        \<and> (type_id t = STRUCT \<longrightarrow> (\<forall>entry \<in> set (child_types t). CanCacheType (snd entry))))"
proof -
  have "(case sink P of None \<Rightarrow> False | Some snk \<Rightarrow> \<not> SinkOrderMatters snk)
        = (\<exists>snk. sink P = Some snk \<and> \<not> SinkOrderMatters snk)"
    by (cases "sink P") auto
  then have "allocates_cache P i =
      ((\<exists>snk. sink P = Some snk \<and> \<not> SinkOrderMatters snk)
       \<and> RequiresCache (operators P ! i)
       \<and> (\<forall>t \<in> set (GetTypes (operators P ! i)). CanCacheType t))"
    by (simp add: allocates_cache_def can_cache_types_all)
  moreover have "CanCacheType t =
       (type_id t \<noteq> LIST \<and> type_id t \<noteq> MAP
        \<and> (type_id t = STRUCT \<longrightarrow> (\<forall>entry \<in> set (child_types t). CanCacheType (snd entry))))"
    by (cases t) (auto simp: CanCacheEntries_all)
  ultimately show ?thesis
    by (simp add: new_PipelineExecutor_cached)
qed

theorem constructor_cache_slots_witness:
  "0 < length (operators filter_pipeline)
   \<and> cached_chunks (new_PipelineExecutor filter_pipeline 5 0 False (Initialize [])) ! 0
       = Some (Initialize [LogicalType INTEGER []])
   \<and> CanCacheType (LogicalType STRUCT [(''a'', LogicalType INTEGER []), (''b'', LogicalType VARCHAR [])])
   \<and> \<not> CanCacheType (LogicalType STRUCT [(''a'', LogicalType INTEGER []), (''b'', LogicalType LIST [])])"
  using constructor_cache_slots [of 0 filter_pipeline 5 0 False "Initialize []"
      "LogicalType STRUCT [(''a'', LogicalType INTEGER []), (''b'', LogicalType VARCHAR [])]"]
    constructor_cache_slots [of 0 filter_pipeline 5 0 False "Initialize []"
      "LogicalType STRUCT [(''a'', LogicalType INTEGER []), (''b'', LogicalType LIST [])]"]
  by (simp add: filter_pipeline_def even_filter_def counting_sink_def)



text \<open>
  Claim C10. In push mode (the pipeline has a sink), \<^verbatim>\<open>ExecutePush\<close> on a chunk without
  rows returns \<^verbatim>\<open>NEED_MORE_INPUT\<close> and leaves the executor as it was: no operator and no
  sink is called and no member changes. The same holds for \<^verbatim>\<open>ExecutePushInternal\<close> at any
  start index, and \<^verbatim>\<open>Execute\<close> returns \<^verbatim>\<open>NEED_MORE_INPUT\<close> at once on an empty input.
\<close>

theorem empty_input_changes_nothing:
  "(sink P \<noteq> None \<and> size_chunk chunk = 0 \<longrightarrow>
      ExecutePush K P chunk s = Some (Inr NEED_MORE_INPUT, s\<lparr>caller_chunk := chunk\<rparr>))
   \<and> (sink P \<noteq> None \<and> size_chunk (get_chunk s input) = 0 \<longrightarrow>
      ExecutePushInternal K P input initial_idx s = Some (Inr NEED_MORE_INPUT, s))
   \<and> (size_chunk (get_chunk s input) = 0 \<longrightarrow>
      Execute K P input result initial_idx s = Some (Inr NEED_MORE_INPUT, s))"
  by (simp add: ExecutePush_def ExecutePushInternal_def Execute_def Execute_body_def)

theorem empty_input_changes_nothing_witness:
  "sink filter_pipeline \<noteq> None \<and> size_chunk (Initialize [] :: nat DataChunk) = 0
   \<and> size_chunk (get_chunk blank_executor Final) = 0
   \<and> ExecutePush K128 filter_pipeline (Initialize []) blank_executor
       = Some (Inr NEED_MORE_INPUT, blank_executor)
   \<and> ExecutePushInternal K128 filter_pipeline Final 0 blank_executor
       = Some (Inr NEED_MORE_INPUT, blank_executor)
   \<and> Execute K128 filter_pipeline Final Final 0 blank_executor
       = Some (Inr NEED_MORE_INPUT, blank_executor)"
  using empty_input_changes_nothing [of filter_pipeline "Initialize []" K128 blank_executor Final 0 Final]
  by (simp add: filter_pipeline_def size_chunk_def Initialize_def blank_executor_def)


subsection \<open>The value returned by Execute\<close>

text \<open>
  Claim C3, as amended. Take a call of \<^verbatim>\<open>Execute\<close> on an input with rows that returns or
  throws. At most the last call it makes of an operator is answered \<^verbatim>\<open>FINISHED\<close>. If it is,
  \<^verbatim>\<open>Execute\<close> returns \<^verbatim>\<open>FINISHED\<close> at once whatever the operator has written; only a
  build that checks assertions looks at the operator's output, and there a \<^verbatim>\<open>FINISHED\<close>
  answer with rows fails the assertion instead of returning. If no operator answers
  \<^verbatim>\<open>FINISHED\<close>, \<^verbatim>\<open>Execute\<close> does not return \<^verbatim>\<open>FINISHED\<close>; when it leaves its loop by
  \<^verbatim>\<open>break\<close> it returns \<^verbatim>\<open>HAVE_MORE_OUTPUT\<close> if \<^verbatim>\<open>in_process_operators\<close> is then non-empty
  and \<^verbatim>\<open>NEED_MORE_INPUT\<close> if it is empty; it never returns \<^verbatim>\<open>HAVE_MORE_OUTPUT\<close> with an
  empty stack; and when the stack at the start holds only positions behind \<open>initial_idx\<close>
  and within the operator list, it never returns \<^verbatim>\<open>NEED_MORE_INPUT\<close> with a non-empty one.
\<close>

theorem Execute_return_value:
  assumes "Execute K P input result initial_idx s = Some (r, s')"
    and "size_chunk (get_chunk s input) \<noteq> 0" and "valid_ref s result"
  shows "\<exists>new. calls s' = calls s @ new
     \<and> list_all (\<lambda>c. \<not> is_finished_call c) (butlast new)
     \<and> (if new \<noteq> [] \<and> is_finished_call (last new)
        then r = (if DEBUG K \<and> call_output (last new) \<noteq> [] then Inl AssertionFailure else Inr FINISHED)
        else r \<noteq> Inr FINISHED
           \<and> (r = Inr HAVE_MORE_OUTPUT \<longrightarrow> in_process_operators s' \<noteq> [])
           \<and> (r = Inr NEED_MORE_INPUT
                \<and> list_all (\<lambda>c. initial_idx < c \<and> c \<le> length (operators P)) (in_process_operators s)
              \<longrightarrow> in_process_operators s' = [])
           \<and> (\<forall>s''. Execute_body K P input result initial_idx s = Some (Break s'') \<longrightarrow>
                 s'' = s'
                 \<and> (r = Inr HAVE_MORE_OUTPUT) = (in_process_operators s' \<noteq> [])
                 \<and> (r = Inr NEED_MORE_INPUT) = (in_process_operators s' = [])))"
proof -
  from assms(1) obtain out where body: "Execute_body K P input result initial_idx s = Some out"
    by (auto simp: Execute_def split: option.splits)
  have hmo: "r = Inr HAVE_MORE_OUTPUT \<longrightarrow> in_process_operators s' \<noteq> []"
  proof
    assume h: "r = Inr HAVE_MORE_OUTPUT"
    show "in_process_operators s' \<noteq> []"
    proof (cases out)
      case (Break s'')
      then show ?thesis using assms(1) body h by (auto simp: Execute_def split: if_splits)
    next
      case (Return x s'')
      then have out: "out = Return (Inr HAVE_MORE_OUTPUT) s'" using assms(1) body h by (auto simp: Execute_def)
      have False
      proof (cases "(DEBUG K \<and> operators P = [])")
        case True
        then show ?thesis using body out assms(2) by (auto simp: Execute_body_def)
      next
        case nd: False
        obtain g s1 where go: "GoToSource K initial_idx s = (g, s1)" by (cases "GoToSource K initial_idx s")
        show ?thesis
        proof (cases g)
          case (Inl e)
          then show ?thesis using body out assms(2) nd go by (auto simp: Execute_body_def)
        next
          case (Inr idx)
          show ?thesis
          proof (cases "(if idx = initial_idx then idx + 1 else idx) > length (operators P)")
            case True
            then show ?thesis using body out assms(2) nd go Inr by (auto simp: Execute_body_def Let_def)
          next
            case False
            then have loop: "Execute_loop K P input result initial_idx (if idx = initial_idx then idx + 1 else idx) s1 = Some out"
              using body assms(2) nd go Inr by (auto simp: Execute_body_def Let_def)
            have "\<exists>idx0 s0. True \<and> Execute_step K P input result initial_idx idx0 s0 = Exit out"
              by (rule Execute_loop_invariant [OF loop, where I = "\<lambda>idx s. True"]) simp_all
            then obtain idx0 s0 where "Execute_step K P input result initial_idx idx0 s0 = Exit out" by blast
            then show ?thesis using out by (cases rule: Execute_step_cases) simp_all
          qed
        qed
      qed
      then show ?thesis ..
    qed
  qed
  have nmi: "r = Inr NEED_MORE_INPUT
        \<and> list_all (\<lambda>c. initial_idx < c \<and> c \<le> length (operators P)) (in_process_operators s)
        \<longrightarrow> in_process_operators s' = []"
    using Execute_stack [OF _ assms(2)] assms(1) by blast
  have brk: "\<forall>s''. Execute_body K P input result initial_idx s = Some (Break s'') \<longrightarrow>
                 s'' = s'
                 \<and> (r = Inr HAVE_MORE_OUTPUT) = (in_process_operators s' \<noteq> [])
                 \<and> (r = Inr NEED_MORE_INPUT) = (in_process_operators s' = [])"
    using assms(1) by (auto simp: Execute_def split: if_splits)
  note bc = Execute_body_calls [OF body assms(3)]
  show ?thesis
  proof (cases out)
    case (Break s'')
    with assms(1) body have s'': "s'' = s'" and rr: "r \<noteq> Inr FINISHED"
      by (auto simp: Execute_def split: if_splits)
    from bc Break s'' obtain new where n: "calls s' = calls s @ new" "\<forall>c \<in> set new. \<not> is_finished_call c"
      by auto
    have bl: "list_all (\<lambda>c. \<not> is_finished_call c) (butlast new)"
      using n(2) by (auto simp: list_all_iff dest: in_set_butlastD)
    have fin: "(new \<noteq> [] \<and> is_finished_call (last new)) = False" using n(2) by auto
    show ?thesis
      apply (intro exI [of _ new] conjI)
        apply (rule n(1))
       apply (rule bl)
      unfolding fin if_False using rr hmo nmi brk by blast
  next
    case (Return x s'')
    with assms(1) body have eq: "s'' = s'" "x = r" by (auto simp: Execute_def)
    from bc Return eq have
      "(\<exists>new j p rows. calls s' = calls s @ new @ [OperatorCall j p FINISHED rows]
                \<and> (\<forall>c \<in> set new. \<not> is_finished_call c)
                \<and> r = (if DEBUG K \<and> rows \<noteq> [] then Inl AssertionFailure else Inr FINISHED))
       \<or> (r \<noteq> Inr FINISHED
                \<and> (\<exists>new. calls s' = calls s @ new \<and> (\<forall>c \<in> set new. \<not> is_finished_call c)))"
      by simp
    then show ?thesis
    proof
      assume "\<exists>new j p rows. calls s' = calls s @ new @ [OperatorCall j p FINISHED rows]
                \<and> (\<forall>c \<in> set new. \<not> is_finished_call c)
                \<and> r = (if DEBUG K \<and> rows \<noteq> [] then Inl AssertionFailure else Inr FINISHED)"
      then obtain new j p rows where n: "calls s' = calls s @ new @ [OperatorCall j p FINISHED rows]"
        "\<forall>c \<in> set new. \<not> is_finished_call c"
        "r = (if DEBUG K \<and> rows \<noteq> [] then Inl AssertionFailure else Inr FINISHED)" by blast
      show ?thesis
        using n by (intro exI [of _ "new @ [OperatorCall j p FINISHED rows]"]) (simp add: butlast_append list_all_iff)
    next
      assume a: "r \<noteq> Inr FINISHED
                \<and> (\<exists>new. calls s' = calls s @ new \<and> (\<forall>c \<in> set new. \<not> is_finished_call c))"
      then obtain new where n: "calls s' = calls s @ new" "\<forall>c \<in> set new. \<not> is_finished_call c"
        by blast
      have bl: "list_all (\<lambda>c. \<not> is_finished_call c) (butlast new)"
        using n(2) by (auto simp: list_all_iff dest: in_set_butlastD)
      have fin: "(new \<noteq> [] \<and> is_finished_call (last new)) = False" using n(2) by auto
      show ?thesis
        apply (intro exI [of _ new] conjI)
          apply (rule n(1))
         apply (rule bl)
        unfolding fin if_False using a hmo nmi brk by blast
    qed
  qed
qed


theorem Execute_return_value_witness:
  "Execute K128 finishing_pipeline Caller Final 0 finishing_executor = Some (Inr FINISHED, finishing_finished)
   \<and> size_chunk (get_chunk finishing_executor Caller) \<noteq> 0 \<and> valid_ref finishing_executor Final
   \<and> calls finishing_finished
        = calls finishing_executor @ [OperatorCall 0 [4, 3, 2, 1] HAVE_MORE_OUTPUT [4, 3],
                                      OperatorCall 1 [4, 3] FINISHED []]
   \<and> Execute K128 halving_pipeline Caller Final 0 halving_executor = Some (Inr HAVE_MORE_OUTPUT, halving_after_first)
   \<and> size_chunk (get_chunk halving_executor Caller) \<noteq> 0 \<and> valid_ref halving_executor Final
   \<and> in_process_operators halving_after_first \<noteq> []"
proof -
  have a: "size_chunk (get_chunk halving_executor Caller) \<noteq> 0"
    by (simp add: halving_executor_eq four_rows_def size_chunk_def)
  have c: "valid_ref halving_executor Final" by (simp add: valid_ref_def)
  have a': "size_chunk (get_chunk finishing_executor Caller) \<noteq> 0"
    by (simp add: finishing_executor_eq four_rows_def size_chunk_def)
  have c': "valid_ref finishing_executor Final" by (simp add: valid_ref_def)
  from Execute_return_value [OF Execute_halving_first a c]
  obtain new where new: "calls halving_after_first = calls halving_executor @ new"
    "if new \<noteq> [] \<and> is_finished_call (last new)
     then (Inr HAVE_MORE_OUTPUT :: error + OperatorResultType)
            = (if DEBUG K128 \<and> call_output (last new) \<noteq> [] then Inl AssertionFailure else Inr FINISHED)
     else in_process_operators halving_after_first \<noteq> []"
    by (auto split: if_splits)
  from new(1) have "new = [OperatorCall 0 [4, 3, 2, 1] HAVE_MORE_OUTPUT [4, 3]]"
    by (simp add: halving_after_first_def halving_executor_eq)
  with new(2) have stack: "in_process_operators halving_after_first \<noteq> []" by simp
  from Execute_return_value [OF Execute_finishing a' c']
  obtain new' where new': "calls finishing_finished = calls finishing_executor @ new'"
    by blast
  then have "calls finishing_finished
        = calls finishing_executor @ [OperatorCall 0 [4, 3, 2, 1] HAVE_MORE_OUTPUT [4, 3],
                                      OperatorCall 1 [4, 3] FINISHED []]"
    by (simp add: finishing_finished_def finishing_executor_eq)
  with a c a' c' stack Execute_halving_first Execute_finishing show ?thesis by simp
qed

text \<open>
  The claim as first stated fails for an operator that answers \<^verbatim>\<open>FINISHED\<close> and has
  written rows. In a release build \<^verbatim>\<open>Execute\<close> returns \<^verbatim>\<open>FINISHED\<close> and the four rows are
  in the output chunk; in a debug build the same call fails the assertion and does not
  return \<^verbatim>\<open>FINISHED\<close>.
\<close>

theorem Execute_finished_with_rows_counterexample:
  "size_chunk (get_chunk eager_executor Caller) \<noteq> 0 \<and> operators eager_pipeline \<noteq> []
   \<and> Execute K128_release eager_pipeline Caller Final 0 eager_executor = Some (Inr FINISHED, eager_finished)
   \<and> calls eager_finished = [OperatorCall 0 [4, 3, 2, 1] FINISHED [4, 3, 2, 1]]
   \<and> chunk_rows (get_chunk eager_finished Final) = [4, 3, 2, 1]
   \<and> Execute K128 eager_pipeline Caller Final 0 eager_executor = Some (Inl AssertionFailure, eager_finished)"
  using Execute_eager_release Execute_eager_debug
  by (simp add: eager_executor_eq eager_finished_def eager_pipeline_def four_rows_def size_chunk_def)





text \<open>
  Why the clause on the emptied slots speaks of a build that checks assertions. A flush
  may return \<^verbatim>\<open>FINISHED\<close> and leave an operator in process; \<^verbatim>\<open>PushFinalize\<close> ignores the
  value and goes on to the next slot, whose push then resumes that operator, in front of
  its own start index. The assertion of \<^verbatim>\<open>GoToSource\<close> stops a debug build there. A release
  build runs the operator, which may fill a cache slot that the loop has already passed:
  in the pipeline of the three caching operators, \<^verbatim>\<open>PushFinalize\<close> returns normally and
  the slot of the second operator holds one row.
\<close>

lemma PushFinalize_release_refills_cache:
  "ExecutePush K128_release staged_pipeline first_chunk staged_executor
     = Some (Inr NEED_MORE_INPUT, staged_first)
   \<and> ExecutePush K128_release staged_pipeline three_even staged_first
     = Some (Inr NEED_MORE_INPUT, staged_loaded)
   \<and> \<not> finalized staged_loaded \<and> \<not> finished_processing staged_loaded
   \<and> in_process_operators staged_loaded = []
   \<and> PushFinalize K128_release staged_pipeline staged_loaded = Some (Inr (), staged_release_end)
   \<and> cached_chunks staged_release_end ! 1
       = Some \<lparr>chunk_types = [LogicalType INTEGER []], chunk_rows = [8]\<rparr>
   \<and> \<not> slot_empty (cached_chunks staged_release_end ! 1)
   \<and> map_option fst (PushFinalize K128 staged_pipeline staged_loaded) = Some (Inl AssertionFailure)"
  using staged_push_first staged_push_second staged_finalize_release staged_finalize_debug
  by (simp add: staged_release_end_def staged_loaded_def staged_first_def slot_empty_def size_chunk_def)


text \<open>
  Claim C5, the failing run. The sink of the early-finish pipeline answers \<^verbatim>\<open>FINISHED\<close>
  to the second chunk. Pushed through the public \<^verbatim>\<open>ExecutePush\<close>, the chunk makes
  \<^verbatim>\<open>ExecutePushInternal\<close> return \<^verbatim>\<open>FINISHED\<close>, but \<^verbatim>\<open>finished_processing\<close> stays unset, and
  the following \<^verbatim>\<open>PushFinalize\<close> flushes the cache into the sink that has finished. Driven
  by the parameterless \<^verbatim>\<open>Execute()\<close>, the same chunks set the flag and nothing is flushed.
\<close>

theorem ExecutePush_finished_flag_not_set:
  "ExecutePush K128 early_finish_pipeline second_chunk early_finish_cached
     = Some (Inr FINISHED, early_finish_pushed)
   \<and> \<not> finished_processing early_finish_pushed
   \<and> PushFinalize K128 early_finish_pipeline early_finish_pushed = Some (Inr (), early_finish_flushed)
   \<and> calls early_finish_flushed
       = calls early_finish_pushed @ [SinkCall [2] SINK_FINISHED, CombineCall]
   \<and> Execute_pipeline K128 early_finish_pipeline early_finish_start = Some (Inr (), early_finish_end)
   \<and> finished_processing early_finish_end
   \<and> calls early_finish_end = calls early_finish_pushed @ [CombineCall]"
  using early_finish_push_second early_finish_finalize_pushed early_finish_pipeline_run
  by (simp add: early_finish_pushed_def early_finish_flushed_def early_finish_cached_def
      early_finish_start_def early_finish_end_def early_finish_stopped_def)


subsection \<open>Resumption of operators that have more output\<close>








section \<open>Properties of the checkpoint manager\<close>

subsection \<open>Reading back what was written\<close>

lemma length_le_bytes [simp]: "length (le_bytes n v) = n"
  by (induction n arbitrary: v) auto

lemma le_nat_le_bytes: "le_nat (le_bytes n v) = v mod 256 ^ n"
proof (induction n arbitrary: v)
  case 0
  then show ?case by simp
next
  case (Suc n)
  have "unat (of_nat (v mod 256) :: byte) = v mod 256"
    by (simp add: unat_of_nat)
  then show ?case
    using Suc [of "v div 256"] by (simp add: mod_mult2_eq)
qed

lemma read_u32_write_u32 [simp]: "read_u32 (write_u32 v @ rest) = Inr (v, rest)"
proof -
  have "unat v < 2 ^ 32"
    using unsigned_less [of v, where ?'a = nat] by simp
  then have "unat v mod 256 ^ 4 = unat v"
    by simp
  then show ?thesis
    by (simp add: read_u32_def write_u32_def le_nat_le_bytes)
qed

lemma read_u64_write_u64 [simp]: "read_u64 (write_u64 v @ rest) = Inr (v, rest)"
proof -
  have "unat v < 2 ^ 64"
    using unsigned_less [of v, where ?'a = nat] by simp
  then have "unat v mod 256 ^ 8 = unat v"
    by simp
  then show ?thesis
    by (simp add: read_u64_def write_u64_def le_nat_le_bytes)
qed

lemma written_WriteData [simp]: "written (WriteData env bytes w) = written w @ bytes"
  by (simp add: WriteData_def split: prod.splits)


lemma unat_count [simp]: "n < 2 ^ 32 \<Longrightarrow> unat (of_nat n :: 32 word) = n"
  by (simp add: unat_of_nat)

lemma read_each_entries:
  assumes "\<And>x rest log. x \<in> set xs \<Longrightarrow> read (enc x @ rest) log = Inr (rest, log @ evs x)"
  shows "read_each read (length xs) (concat (map enc xs) @ rest) log = Inr (rest, log @ concat (map evs xs))"
  using assms
proof (induction xs arbitrary: log)
  case Nil
  then show ?case by simp
next
  case (Cons x xs)
  have "read (enc x @ concat (map enc xs) @ rest) log = Inr (concat (map enc xs) @ rest, log @ evs x)"
    using Cons.prems by simp
  moreover have "read_each read (length xs) (concat (map enc xs) @ rest) (log @ evs x)
      = Inr (rest, (log @ evs x) @ concat (map evs xs))"
    using Cons.IH Cons.prems by simp
  ultimately show ?case by simp
qed

lemma read_counted_entries:
  assumes "\<And>x rest log. x \<in> set xs \<Longrightarrow> read (enc x @ rest) log = Inr (rest, log @ evs x)"
    and "length xs < 2 ^ 32"
  shows "read_counted read (write_u32 (of_nat (length xs)) @ concat (map enc xs) @ rest) log
         = Inr (rest, log @ concat (map evs xs))"
  using read_each_entries [of xs read enc evs rest log, OF assms(1)] assms(2)
  by (simp add: read_counted_def)

lemma ReadSequence_Serialize:
  "serializers_ok env \<Longrightarrow>
   ReadSequence env (Serialize env SEQUENCE_ENTRY info @ rest) log = Inr (rest, log @ [CreateSequence info])"
  by (simp add: ReadSequence_def serializers_ok_def)

lemma ReadView_Serialize:
  "serializers_ok env \<Longrightarrow>
   ReadView env (Serialize env VIEW_ENTRY info @ rest) log = Inr (rest, log @ [CreateView info])"
  by (simp add: ReadView_def serializers_ok_def)

lemma ReadMacro_Serialize:
  "serializers_ok env \<Longrightarrow>
   ReadMacro env (Serialize env MACRO_ENTRY info @ rest) log = Inr (rest, log @ [CreateFunction info])"
  by (simp add: ReadMacro_def serializers_ok_def)

lemma ReadTable_table_bytes:
  "serializers_ok env \<Longrightarrow>
   ReadTable env (table_bytes env tt @ rest) log = Inr (rest, log @ table_events env tt)"
  by (simp add: ReadTable_def table_bytes_def table_events_def serializers_ok_def Let_def)

lemma write_count_effect [simp]:
  "written (metadata_writer (write_count env n cm)) = written (metadata_writer cm) @ write_u32 (of_nat n)"
  "tabledata_writer (write_count env n cm) = tabledata_writer cm"
  by (simp_all add: write_count_def)

lemma write_each_plain:
  assumes "\<And>x cm. written (metadata_writer (write x cm)) = written (metadata_writer cm) @ enc x"
    and "\<And>x cm. tabledata_writer (write x cm) = tabledata_writer cm"
  shows "written (metadata_writer (write_each write xs cm)) = written (metadata_writer cm) @ concat (map enc xs)
         \<and> tabledata_writer (write_each write xs cm) = tabledata_writer cm"
  by (induction xs arbitrary: cm) (simp_all add: assms)

lemma WriteSequence_effect:
  "written (metadata_writer (WriteSequence env x cm)) = written (metadata_writer cm) @ Serialize env SEQUENCE_ENTRY (entry_info x)"
  "tabledata_writer (WriteSequence env x cm) = tabledata_writer cm"
  by (simp_all add: WriteSequence_def)

lemma WriteView_effect:
  "written (metadata_writer (WriteView env x cm)) = written (metadata_writer cm) @ Serialize env VIEW_ENTRY (entry_info x)"
  "tabledata_writer (WriteView env x cm) = tabledata_writer cm"
  by (simp_all add: WriteView_def)

lemma WriteMacro_effect:
  "written (metadata_writer (WriteMacro env x cm)) = written (metadata_writer cm) @ Serialize env MACRO_ENTRY (entry_info x)"
  "tabledata_writer (WriteMacro env x cm) = tabledata_writer cm"
  by (simp_all add: WriteMacro_def)

lemma WriteTable_effect:
  "written (metadata_writer (WriteTable env t cm))
     = written (metadata_writer cm) @ table_bytes env (t, block_id (tabledata_writer cm), offset (tabledata_writer cm))"
  "tabledata_writer (WriteTable env t cm) = WriteTableData env t (tabledata_writer cm)"
  by (simp_all add: WriteTable_def table_bytes_def Let_def)

lemma write_each_tables:
  "written (metadata_writer (write_each (WriteTable env) ts cm))
     = written (metadata_writer cm) @ concat (map (table_bytes env) (zip ts (table_tips env ts (tabledata_writer cm))))"
  by (induction ts arbitrary: cm) (simp_all add: WriteTable_effect)

lemma scan_tables_ok:
  assumes "\<forall>entry \<in> set es. entry_type entry = TABLE_ENTRY \<or> entry_type entry = VIEW_ENTRY"
  shows "scan_tables es = Inr (filter (\<lambda>entry. entry_type entry = TABLE_ENTRY) es,
                                filter (\<lambda>entry. entry_type entry = VIEW_ENTRY) es)"
  using assms by (induction es) auto


lemma length_table_tips [simp]: "length (table_tips env ts td) = length ts"
  by (induction ts arbitrary: td) simp_all


subsection \<open>A small schema, written\<close>

lemma byte_collaborators_ok: "serializers_ok byte_collaborators"
  by (simp add: serializers_ok_def byte_collaborators_def)

lemma small_schema_written:
  "WriteSchema byte_collaborators small_schema fresh_manager
     = Inr \<lparr>metadata_writer =
              \<lparr>block_id = 0, offset = 45,
               written = [1, 1, 0, 0, 0, 2, 1, 0, 0, 0, 3, 7, 0, 0, 0, 0, 0, 0, 0, 8, 0,
                          0, 0, 0, 0, 0, 0, 1, 0, 0, 0, 4, 1, 0, 0, 0, 5]\<rparr>,
            tabledata_writer = \<lparr>block_id = 8, offset = 8, written = []\<rparr>\<rparr>"
  by code_simp

lemma small_table_written:
  "WriteTable byte_collaborators \<lparr>entry_type = TABLE_ENTRY, entry_info = 3, entry_data = 7\<rparr> fresh_manager
     = \<lparr>metadata_writer =
          \<lparr>block_id = 0, offset = 25,
           written = [3, 7, 0, 0, 0, 0, 0, 0, 0, 8, 0, 0, 0, 0, 0, 0, 0]\<rparr>,
        tabledata_writer = \<lparr>block_id = 8, offset = 8, written = []\<rparr>\<rparr>"
  by code_simp


text \<open>
  Claim C6. For a schema whose table scope holds tables and views only and whose four
  groups each have fewer than \<open>2\<^sup>3\<^sup>2\<close> entries (the counts are written as \<^verbatim>\<open>uint32_t\<close>),
  and for serializers that read back what they write: \<^verbatim>\<open>WriteSchema\<close> appends to the
  metadata stream the serialized schema, then the count and the entries of the sequences,
  of the tables, of the views and of the macros, in this order; and \<^verbatim>\<open>ReadSchema\<close> over
  these bytes consumes exactly them, count first and then that many entries per group, and
  creates the schema and every entry written, in the order written.
\<close>

theorem WriteSchema_ReadSchema:
  assumes ok: "serializers_ok env"
    and scope: "\<forall>entry \<in> set (table_scope schema).
                  entry_type entry = TABLE_ENTRY \<or> entry_type entry = VIEW_ENTRY"
    and counts: "length (sequence_scope schema) < 2 ^ 32" "length (tables_of schema) < 2 ^ 32"
      "length (views_of schema) < 2 ^ 32" "length (macros_of schema) < 2 ^ 32"
  shows "\<exists>cm'. WriteSchema env schema cm = Inr cm'
           \<and> written (metadata_writer cm')
               = written (metadata_writer cm) @ schema_bytes env schema (tabledata_writer cm)
           \<and> ReadSchema env (schema_bytes env schema (tabledata_writer cm) @ rest) log
               = Inr (rest, log @ schema_events env schema (tabledata_writer cm))"
proof -
  let ?td = "tabledata_writer cm"
  let ?seqs = "sequence_scope schema" and ?tables = "tables_of schema"
    and ?views = "views_of schema" and ?macros = "macros_of schema"
  let ?cm1 = "cm\<lparr>metadata_writer :=
                 WriteData env (Serialize env SCHEMA_ENTRY (schema_info schema)) (metadata_writer cm)\<rparr>"
  let ?cm2 = "write_each (WriteSequence env) ?seqs (write_count env (length ?seqs) ?cm1)"
  let ?cm3 = "write_each (WriteTable env) ?tables (write_count env (length ?tables) ?cm2)"
  let ?cm4 = "write_each (WriteView env) ?views (write_count env (length ?views) ?cm3)"
  let ?cm5 = "write_each (WriteMacro env) ?macros (write_count env (length ?macros) ?cm4)"
  have scan: "scan_tables (table_scope schema) = Inr (?tables, ?views)"
    using scan_tables_ok [OF scope] by (simp add: tables_of_def views_of_def)
  have w: "WriteSchema env schema cm = Inr ?cm5"
    by (simp add: WriteSchema_def scan Let_def macros_of_def)
  have s2: "written (metadata_writer ?cm2) = written (metadata_writer ?cm1)
              @ write_u32 (of_nat (length ?seqs))
              @ concat (map (\<lambda>entry. Serialize env SEQUENCE_ENTRY (entry_info entry)) ?seqs)"
    and t2: "tabledata_writer ?cm2 = ?td"
    using write_each_plain [of "WriteSequence env" "\<lambda>entry. Serialize env SEQUENCE_ENTRY (entry_info entry)"
        ?seqs "write_count env (length ?seqs) ?cm1"]
    by (simp_all add: WriteSequence_effect)
  have s3: "written (metadata_writer ?cm3) = written (metadata_writer ?cm2)
              @ write_u32 (of_nat (length ?tables))
              @ concat (map (table_bytes env) (zip ?tables (table_tips env ?tables ?td)))"
    by (simp add: write_each_tables t2)
  have s4: "written (metadata_writer ?cm4) = written (metadata_writer ?cm3)
              @ write_u32 (of_nat (length ?views))
              @ concat (map (\<lambda>entry. Serialize env VIEW_ENTRY (entry_info entry)) ?views)"
    using write_each_plain [of "WriteView env" "\<lambda>entry. Serialize env VIEW_ENTRY (entry_info entry)"
        ?views "write_count env (length ?views) ?cm3"]
    by (simp add: WriteView_effect)
  have s5: "written (metadata_writer ?cm5) = written (metadata_writer ?cm4)
              @ write_u32 (of_nat (length ?macros))
              @ concat (map (\<lambda>entry. Serialize env MACRO_ENTRY (entry_info entry)) ?macros)"
    using write_each_plain [of "WriteMacro env" "\<lambda>entry. Serialize env MACRO_ENTRY (entry_info entry)"
        ?macros "write_count env (length ?macros) ?cm4"]
    by (simp add: WriteMacro_effect)
  have bytes: "written (metadata_writer ?cm5) = written (metadata_writer cm) @ schema_bytes env schema ?td"
    unfolding s5 s4 s3 s2 by (simp add: schema_bytes_def)
  let ?b4 = "write_u32 (of_nat (length ?macros))
              @ concat (map (\<lambda>entry. Serialize env MACRO_ENTRY (entry_info entry)) ?macros) @ rest"
  let ?b3 = "write_u32 (of_nat (length ?views))
              @ concat (map (\<lambda>entry. Serialize env VIEW_ENTRY (entry_info entry)) ?views) @ ?b4"
  let ?b2 = "write_u32 (of_nat (length ?tables))
              @ concat (map (table_bytes env) (zip ?tables (table_tips env ?tables ?td))) @ ?b3"
  let ?b1 = "write_u32 (of_nat (length ?seqs))
              @ concat (map (\<lambda>entry. Serialize env SEQUENCE_ENTRY (entry_info entry)) ?seqs) @ ?b2"
  have len_zip: "length (zip ?tables (table_tips env ?tables ?td)) = length ?tables"
    by simp
  have r1: "read_counted (ReadSequence env) ?b1 l
             = Inr (?b2, l @ concat (map (\<lambda>entry. [CreateSequence (entry_info entry)]) ?seqs))" for l
    using read_counted_entries [of ?seqs "ReadSequence env"
        "\<lambda>entry. Serialize env SEQUENCE_ENTRY (entry_info entry)"
        "\<lambda>entry. [CreateSequence (entry_info entry)]" ?b2 l] counts(1)
    by (simp add: ReadSequence_Serialize ok)
  have r2: "read_counted (ReadTable env) ?b2 l
             = Inr (?b3, l @ concat (map (table_events env) (zip ?tables (table_tips env ?tables ?td))))" for l
    using read_counted_entries [of "zip ?tables (table_tips env ?tables ?td)" "ReadTable env"
        "table_bytes env" "table_events env" ?b3 l] counts(2)
    by (simp add: ReadTable_table_bytes ok len_zip)
  have r3: "read_counted (ReadView env) ?b3 l
             = Inr (?b4, l @ concat (map (\<lambda>entry. [CreateView (entry_info entry)]) ?views))" for l
    using read_counted_entries [of ?views "ReadView env"
        "\<lambda>entry. Serialize env VIEW_ENTRY (entry_info entry)"
        "\<lambda>entry. [CreateView (entry_info entry)]" ?b4 l] counts(3)
    by (simp add: ReadView_Serialize ok)
  have r4: "read_counted (ReadMacro env) ?b4 l
             = Inr (rest, l @ concat (map (\<lambda>entry. [CreateFunction (entry_info entry)]) ?macros))" for l
    using read_counted_entries [of ?macros "ReadMacro env"
        "\<lambda>entry. Serialize env MACRO_ENTRY (entry_info entry)"
        "\<lambda>entry. [CreateFunction (entry_info entry)]" rest l] counts(4)
    by (simp add: ReadMacro_Serialize ok)
  have single: "concat (map (\<lambda>x. [f x]) xs) = map f xs" for f :: "'x \<Rightarrow> 'y" and xs
    by (induction xs) simp_all
  have split: "schema_bytes env schema ?td @ rest = Serialize env SCHEMA_ENTRY (schema_info schema) @ ?b1"
    by (simp add: schema_bytes_def)
  have "ReadSchema env (schema_bytes env schema ?td @ rest) log
          = Inr (rest, log @ schema_events env schema ?td)"
    unfolding split ReadSchema_def
    using ok by (simp add: serializers_ok_def r1 r2 r3 r4 single schema_events_def)
  with w bytes show ?thesis by blast
qed

theorem WriteSchema_ReadSchema_witness:
  "serializers_ok byte_collaborators
   \<and> list_all (\<lambda>entry. entry_type entry = TABLE_ENTRY \<or> entry_type entry = VIEW_ENTRY) (table_scope small_schema)
   \<and> length (sequence_scope small_schema) < 2 ^ 32 \<and> length (tables_of small_schema) < 2 ^ 32
   \<and> length (views_of small_schema) < 2 ^ 32 \<and> length (macros_of small_schema) < 2 ^ 32
   \<and> ReadSchema byte_collaborators
        [1, 1, 0, 0, 0, 2, 1, 0, 0, 0, 3, 7, 0, 0, 0, 0, 0, 0, 0, 8, 0,
         0, 0, 0, 0, 0, 0, 1, 0, 0, 0, 4, 1, 0, 0, 0, 5] []
       = Inr ([], [CreateSchema 1 IGNORE_ON_CONFLICT, CreateSequence 2, OpenReader 7 (Some 8),
                   CreateTable 3 7, CreateView 4, CreateFunction 5])"
proof -
  have scope: "\<forall>entry \<in> set (table_scope small_schema).
                 entry_type entry = TABLE_ENTRY \<or> entry_type entry = VIEW_ENTRY"
    by (simp add: small_schema_def)
  have counts: "length (sequence_scope small_schema) < 2 ^ 32" "length (tables_of small_schema) < 2 ^ 32"
    "length (views_of small_schema) < 2 ^ 32" "length (macros_of small_schema) < 2 ^ 32"
    by (simp_all add: small_schema_def tables_of_def views_of_def macros_of_def)
  have events: "schema_events byte_collaborators small_schema (tabledata_writer fresh_manager)
      = [CreateSchema 1 IGNORE_ON_CONFLICT, CreateSequence 2, OpenReader 7 (Some 8),
         CreateTable 3 7, CreateView 4, CreateFunction 5]"
    by code_simp
  from WriteSchema_ReadSchema [OF byte_collaborators_ok scope counts, of fresh_manager "[]" "[]"]
  obtain cm' where "WriteSchema byte_collaborators small_schema fresh_manager = Inr cm'"
    "written (metadata_writer cm') = written (metadata_writer fresh_manager)
       @ schema_bytes byte_collaborators small_schema (tabledata_writer fresh_manager)"
    "ReadSchema byte_collaborators (schema_bytes byte_collaborators small_schema (tabledata_writer fresh_manager) @ []) []
       = Inr ([], [] @ schema_events byte_collaborators small_schema (tabledata_writer fresh_manager))"
    by blast
  then have "ReadSchema byte_collaborators
        [1, 1, 0, 0, 0, 2, 1, 0, 0, 0, 3, 7, 0, 0, 0, 0, 0, 0, 0, 8, 0,
         0, 0, 0, 0, 0, 0, 1, 0, 0, 0, 4, 1, 0, 0, 0, 5] []
       = Inr ([], [CreateSchema 1 IGNORE_ON_CONFLICT, CreateSequence 2, OpenReader 7 (Some 8),
                   CreateTable 3 7, CreateView 4, CreateFunction 5])"
    using small_schema_written events by (simp add: fresh_manager_def)
  then show ?thesis
    using byte_collaborators_ok scope counts by (simp add: list_all_iff)
qed

text \<open>
  Claim C7. \<^verbatim>\<open>WriteTable\<close> appends to the metadata stream the serialized table entry, then
  the id of the block at the tip of the table-data stream and the offset of that tip, both
  as they are before the table's data is written; then the table's data is written through
  the table-data stream. \<^verbatim>\<open>ReadTable\<close>, over bytes of this shape, reads the entry, the
  block id and the offset, opens a reader at exactly that block and offset, reads the table
  data there and creates the table, leaving the rest of the stream.
\<close>

theorem WriteTable_ReadTable:
  assumes "serializers_ok env"
  shows "written (metadata_writer (WriteTable env table cm))
           = written (metadata_writer cm)
             @ Serialize env TABLE_ENTRY (entry_info table)
             @ write_u64 (block_id (tabledata_writer cm))
             @ write_u64 (offset (tabledata_writer cm))
         \<and> tabledata_writer (WriteTable env table cm) = WriteTableData env table (tabledata_writer cm)
         \<and> ReadTable env (Serialize env TABLE_ENTRY (entry_info table) @ write_u64 block @ write_u64 off @ rest) log
           = Inr (rest, log @ [OpenReader block (Some off),
                               CreateTable (BindCreateTableInfo env (entry_info table))
                                 (ReadTableData env block off (BindCreateTableInfo env (entry_info table)))])"
  using assms ReadTable_table_bytes [of env "(table, block, off)" rest log]
  by (simp add: WriteTable_effect table_bytes_def table_events_def Let_def)

theorem WriteTable_ReadTable_witness:
  "serializers_ok byte_collaborators
   \<and> written (metadata_writer
        (WriteTable byte_collaborators \<lparr>entry_type = TABLE_ENTRY, entry_info = 3, entry_data = 7\<rparr> fresh_manager))
       = [3, 7, 0, 0, 0, 0, 0, 0, 0, 8, 0, 0, 0, 0, 0, 0, 0]
   \<and> ReadTable byte_collaborators [3, 7, 0, 0, 0, 0, 0, 0, 0, 8, 0, 0, 0, 0, 0, 0, 0] []
       = Inr ([], [OpenReader 7 (Some 8), CreateTable 3 7])"
proof -
  let ?t = "\<lparr>entry_type = TABLE_ENTRY, entry_info = 3 :: byte, entry_data = 7 :: nat\<rparr>"
  have w: "Serialize byte_collaborators TABLE_ENTRY (entry_info ?t) @ write_u64 7 @ write_u64 8 @ []
      = [3, 7, 0, 0, 0, 0, 0, 0, 0, 8, 0, 0, 0, 0, 0, 0, 0]"
    by code_simp
  have b: "BindCreateTableInfo byte_collaborators (entry_info ?t) = 3"
    "ReadTableData byte_collaborators 7 8 3 = 7"
    by (simp_all add: byte_collaborators_def)
  have r: "ReadTable byte_collaborators [3, 7, 0, 0, 0, 0, 0, 0, 0, 8, 0, 0, 0, 0, 0, 0, 0] []
       = Inr ([], [OpenReader 7 (Some 8), CreateTable 3 7])"
    using WriteTable_ReadTable [OF byte_collaborators_ok, of ?t fresh_manager 7 8 "[]" "[]"]
    unfolding w b by simp
  have wr: "written (metadata_writer (WriteTable byte_collaborators ?t fresh_manager))
       = [3, 7, 0, 0, 0, 0, 0, 0, 0, 8, 0, 0, 0, 0, 0, 0, 0]"
    by (simp add: small_table_written)
  show ?thesis
    using byte_collaborators_ok r wr by simp
qed

text \<open>
  Claim C9. When the stored \<^verbatim>\<open>meta_block\<close> is negative, \<^verbatim>\<open>LoadFromStorage\<close> returns at
  once: no transaction is begun, no reader is opened and nothing is created in the
  catalog.
\<close>

theorem LoadFromStorage_empty:
  "sint meta_block < 0 \<Longrightarrow> LoadFromStorage env meta_block log = Inr log"
  by (simp add: LoadFromStorage_def)

theorem LoadFromStorage_empty_witness:
  "sint (- 1 :: block_id_t) < 0 \<and> LoadFromStorage byte_collaborators (- 1) [] = Inr []"
  using LoadFromStorage_empty [of "- 1" byte_collaborators "[]"] by simp


end
